theory Spec2Isabelle
  imports Main "HOL-Library.Sublist"
begin

section \<open>Values shared by the two modules of \<^verbatim>\<open>content.ts\<close>\<close>

text \<open>
  The source file holds two modules: the class \<^verbatim>\<open>ContentService\<close> (string identifiers,
  a database handle \<^verbatim>\<open>this.db\<close>) and a module of free functions (\<^verbatim>\<open>create_content\<close>,
  \<^verbatim>\<open>update_content\<close>, ...; numeric identifiers, a module-level handle \<^verbatim>\<open>db\<close>).
  Both are embedded over one model of the store, polymorphic in the identifier type.

  A value bound to a placeholder of a prepared statement (the elements of \<^verbatim>\<open>params: any[]\<close>):
  the code binds strings (identifiers, status, type, tag slugs) and numbers (the tag count,
  limit, offset).
\<close>

datatype sqlv = SText string | SInt int

text \<open>
  JavaScript truthiness of the optional values the code tests with \<^verbatim>\<open>if (x)\<close>:
  \<^verbatim>\<open>undefined\<close> is \<open>None\<close>; a string is truthy unless empty. A number (modelled
  as an integer) is truthy unless zero; the builder tests it in place.
\<close>

definition truthy_str :: "string option \<Rightarrow> bool" where
  "truthy_str v = (case v of None \<Rightarrow> False | Some s \<Rightarrow> s \<noteq> [])"

text \<open>
  \<^verbatim>\<open>String.prototype.trim\<close>: strips white space and line terminators from both ends.
  A \<^typ>\<open>char\<close> is read as a code point below 256; of the code points JavaScript strips,
  these lie in that range: TAB, LF, VT, FF, CR, SPACE and NBSP.
\<close>

definition is_js_space :: "char \<Rightarrow> bool" where
  "is_js_space c = (of_char c \<in> {9, 10, 11, 12, 13, 32, 160 :: nat})"

definition trim :: "string \<Rightarrow> string" where
  "trim s = rev (dropWhile is_js_space (rev (dropWhile is_js_space s)))"

text \<open>\<^verbatim>\<open>Array.prototype.join\<close> on an array of strings.\<close>

fun join :: "string \<Rightarrow> string list \<Rightarrow> string" where
  "join sep [] = []"
| "join sep [x] = x"
| "join sep (x # y # ys) = x @ sep @ join sep (y # ys)"

text \<open>\<^verbatim>\<open>xs.map(() => '?').join(',')\<close>: one placeholder per element.\<close>

definition placeholders :: "'a list \<Rightarrow> string" where
  "placeholders xs = join '','' (map (\<lambda>_. ''?'') xs)"

section \<open>The filter query builder of \<^verbatim>\<open>ContentService\<close>\<close>

text \<open>
  \<^verbatim>\<open>ContentFilters\<close> (its declaration is imported from \<^verbatim>\<open>$lib/types/content\<close>): every field
  is optional; \<^verbatim>\<open>tags\<close> is one slug or an array of slugs. The fields carry the prefix
  \<open>f_\<close>.
\<close>

datatype tags_filter = One string | Many "string list"

record filters =
  f_search :: "string option"
  f_status :: "string option"
  f_type :: "string option"
  f_tags :: "tags_filter option"
  f_sort :: "string option"
  f_limit :: "int option"
  f_offset :: "int option"

text \<open>\<^verbatim>\<open>getFilteredContent(filters: ContentFilters = {})\<close>: the default argument.\<close>

definition no_filters :: filters where
  "no_filters = \<lparr> f_search = None, f_status = None, f_type = None, f_tags = None,
     f_sort = None, f_limit = None, f_offset = None \<rparr>"

text \<open>The local variables of the builder: the SQL text and the three arrays.\<close>

record builder =
  query :: string
  params :: "sqlv list"
  whereConditions :: "string list"
  havingConditions :: "string list"

definition nl :: char where "nl = CHR 0x0A"
definition tab :: char where "tab = CHR 0x09"

text \<open>The template literal that starts the list query, with its line breaks and tabs.\<close>

definition list_select :: string where
  "list_select = [nl, tab, tab, tab] @ ''SELECT DISTINCT c.id'' @
     [nl, tab, tab, tab] @ ''FROM content c'' @ [nl, tab, tab]"

definition count_select :: string where
  "count_select = ''SELECT COUNT(DISTINCT c.id) as total FROM content c''"

definition tag_joins :: string where
  "tag_joins = [nl] @ ''          JOIN content_to_tags ctt ON c.id = ctt.content_id'' @
     [nl] @ ''          JOIN tags t ON ctt.tag_id = t.id'' @ [nl] @ ''        ''"

text \<open>\<^verbatim>\<open>filters.search?.trim()\<close>\<close>

definition search_trimmed :: "filters \<Rightarrow> string option" where
  "search_trimmed f = map_option trim (f_search f)"

text \<open>
  \<^verbatim>\<open>if (filters.search?.trim()) { whereConditions.push(`c.id IN (...)`); params.push(...contentIds) }\<close>
  (the early return on an empty candidate list is in \<open>getFilteredContent\<close> and
  \<open>getFilteredContentCount\<close>).
\<close>

definition add_search :: "filters \<Rightarrow> string list \<Rightarrow> builder \<Rightarrow> builder" where
  "add_search f contentIds b =
     (if truthy_str (search_trimmed f)
      then b\<lparr> whereConditions := whereConditions b @ [''c.id IN ('' @ placeholders contentIds @ '')''],
              params := params b @ map SText contentIds \<rparr>
      else b)"

text \<open>
  \<^verbatim>\<open>if (filters.status !== 'all') {
     whereConditions.push(filters.status ? 'c.status = ?' : "c.status = 'published'")
     if (filters.status) params.push(filters.status) }\<close>
  The count variant writes the same test as \<^verbatim>\<open>if (filters.status === 'all') {} else {...}\<close>.
\<close>

definition sq :: char where "sq = CHR 0x27"

definition status_published :: string where
  "status_published = ''c.status = '' @ [sq] @ ''published'' @ [sq]"

definition add_status :: "filters \<Rightarrow> builder \<Rightarrow> builder" where
  "add_status f b =
     (if f_status f \<noteq> Some ''all''
      then (let b1 = b\<lparr> whereConditions := whereConditions b @
                      [if truthy_str (f_status f) then ''c.status = ?'' else status_published] \<rparr>
            in case f_status f of
                 Some s \<Rightarrow> if s \<noteq> [] then b1\<lparr> params := params b1 @ [SText s] \<rparr> else b1
               | None \<Rightarrow> b1)
      else b)"

text \<open>\<^verbatim>\<open>if (filters.type) { whereConditions.push('c.type = ?'); params.push(filters.type) }\<close>\<close>

definition add_type :: "filters \<Rightarrow> builder \<Rightarrow> builder" where
  "add_type f b =
     (case f_type f of
        Some t \<Rightarrow> if t \<noteq> []
                  then b\<lparr> whereConditions := whereConditions b @ [''c.type = ?''],
                          params := params b @ [SText t] \<rparr>
                  else b
      | None \<Rightarrow> b)"

text \<open>
  \<^verbatim>\<open>if (filters.tags)\<close>: an array is an object and always truthy, also when empty; a bare
  string is truthy unless empty.
\<close>

definition truthy_tags :: "tags_filter option \<Rightarrow> bool" where
  "truthy_tags v = (case v of None \<Rightarrow> False | Some (One s) \<Rightarrow> s \<noteq> [] | Some (Many xs) \<Rightarrow> True)"

text \<open>\<^verbatim>\<open>Array.isArray(filters.tags) ? filters.tags : [filters.tags]\<close>\<close>

definition tags_array :: "tags_filter \<Rightarrow> string list" where
  "tags_array t = (case t of Many xs \<Rightarrow> xs | One s \<Rightarrow> [s])"

text \<open>
  \<^verbatim>\<open>if (filters.tags) {
     const tags = Array.isArray(filters.tags) ? filters.tags : [filters.tags]
     if (tags.length > 0) {
       query += ` JOIN content_to_tags ... JOIN tags ... `
       whereConditions.push(`t.slug IN (${tags.map(() => '?').join(',')})`)
       params.push(...tags)
       if (tags.length > 1) {
         havingConditions.push('COUNT(DISTINCT t.slug) = ?')
         params.push(tags.length) } } }\<close>
\<close>

definition add_tags :: "filters \<Rightarrow> builder \<Rightarrow> builder" where
  "add_tags f b =
     (case f_tags f of
        None \<Rightarrow> b
      | Some t \<Rightarrow>
          if truthy_tags (Some t) then
            (let tags = tags_array t in
             if length tags > 0 then
               (let b1 = b\<lparr> query := query b @ tag_joins,
                              whereConditions := whereConditions b @
                                [''t.slug IN ('' @ placeholders tags @ '')''],
                              params := params b @ map SText tags \<rparr>
                in if length tags > 1
                   then b1\<lparr> havingConditions := havingConditions b1 @ [''COUNT(DISTINCT t.slug) = ?''],
                            params := params b1 @ [SInt (int (length tags))] \<rparr>
                   else b1)
             else b)
          else b)"

text \<open>\<^verbatim>\<open>if (whereConditions.length > 0) query += ' WHERE ' + whereConditions.join(' AND ')\<close>\<close>

definition add_where :: "builder \<Rightarrow> builder" where
  "add_where b =
     (if length (whereConditions b) > 0
      then b\<lparr> query := query b @ '' WHERE '' @ join '' AND '' (whereConditions b) \<rparr>
      else b)"

text \<open>\<^verbatim>\<open>filters.tags && Array.isArray(filters.tags) && filters.tags.length > 1\<close>\<close>

definition grouped :: "filters \<Rightarrow> bool" where
  "grouped f = (case f_tags f of Some (Many xs) \<Rightarrow> length xs > 1 | _ \<Rightarrow> False)"

text \<open>
  \<^verbatim>\<open>if (filters.tags && Array.isArray(filters.tags) && filters.tags.length > 1) {
     query += ' GROUP BY c.id'
     if (havingConditions.length > 0) query += ' HAVING ' + havingConditions.join(' AND ') }\<close>
\<close>

definition add_group :: "filters \<Rightarrow> builder \<Rightarrow> builder" where
  "add_group f b =
     (if grouped f
      then (let b1 = b\<lparr> query := query b @ '' GROUP BY c.id'' \<rparr>
            in if length (havingConditions b1) > 0
               then b1\<lparr> query := query b1 @ '' HAVING '' @ join '' AND '' (havingConditions b1) \<rparr>
               else b1)
      else b)"

text \<open>The \<^verbatim>\<open>ORDER BY\<close> of the list query: four branches, the last the fallback.\<close>

definition add_order :: "filters \<Rightarrow> builder \<Rightarrow> builder" where
  "add_order f b =
     (let b1 = b\<lparr> query := query b @ '' ORDER BY '' \<rparr>
      in if f_sort f = Some ''latest''
         then b1\<lparr> query := query b1 @ ''c.published_at DESC, c.created_at DESC'' \<rparr>
         else if f_sort f = Some ''oldest''
         then b1\<lparr> query := query b1 @ ''c.published_at ASC, c.created_at ASC'' \<rparr>
         else if f_sort f = Some ''popular''
         then b1\<lparr> query := query b1 @ ''c.likes DESC, c.saves DESC'' \<rparr>
         else b1\<lparr> query := query b1 @ ''c.published_at DESC, c.created_at DESC'' \<rparr>)"

text \<open>
  \<^verbatim>\<open>if (filters.limit) {
     query += ' LIMIT ?'; params.push(filters.limit)
     if (filters.offset) { query += ' OFFSET ?'; params.push(filters.offset) } }\<close>
\<close>

definition add_pagination :: "filters \<Rightarrow> builder \<Rightarrow> builder" where
  "add_pagination f b =
     (case f_limit f of
        None \<Rightarrow> b
      | Some l \<Rightarrow>
          if l \<noteq> 0 then
            (let b1 = b\<lparr> query := query b @ '' LIMIT ?'', params := params b @ [SInt l] \<rparr>
             in case f_offset f of
                  None \<Rightarrow> b1
                | Some off \<Rightarrow>
                    if off \<noteq> 0
                    then b1\<lparr> query := query b1 @ '' OFFSET ?'', params := params b1 @ [SInt off] \<rparr>
                    else b1)
          else b)"

text \<open>
  The query that \<^verbatim>\<open>getFilteredContent\<close> hands to \<^verbatim>\<open>this.db.prepare(query).all(...params)\<close>, for
  the candidate identifiers \<open>contentIds\<close> the search returned (the empty list when no
  search ran).
\<close>

definition list_builder :: "filters \<Rightarrow> string list \<Rightarrow> builder" where
  "list_builder f contentIds =
     add_pagination f (add_order f (add_group f (add_where (add_tags f (add_type f
       (add_status f (add_search f contentIds
          \<lparr> query = list_select, params = [], whereConditions = [], havingConditions = [] \<rparr>)))))))"

text \<open>
  The query of \<^verbatim>\<open>getFilteredContentCount\<close>: the same predicates, no \<^verbatim>\<open>ORDER BY\<close> and no
  pagination; a grouped query is wrapped: \<^verbatim>\<open>query = `SELECT COUNT(*) as total FROM (${query})`\<close>.
\<close>

definition wrap_count :: "filters \<Rightarrow> builder \<Rightarrow> builder" where
  "wrap_count f b =
     (if grouped f
      then b\<lparr> query := ''SELECT COUNT(*) as total FROM ('' @ query b @ '')'' \<rparr>
      else b)"

definition count_builder :: "filters \<Rightarrow> string list \<Rightarrow> builder" where
  "count_builder f contentIds =
     wrap_count f (add_group f (add_where (add_tags f (add_type f
       (add_status f (add_search f contentIds
          \<lparr> query = count_select, params = [], whereConditions = [], havingConditions = [] \<rparr>))))))"

text \<open>
  The slugs the tag block binds: the array the code calls \<^verbatim>\<open>tags\<close> when both guards of the
  block pass (\<^verbatim>\<open>filters.tags\<close> truthy, \<^verbatim>\<open>tags.length > 0\<close>), the empty list when the block is
  skipped. Used to state what \<open>add_tags\<close> contributes.
\<close>

definition tag_slugs :: "filters \<Rightarrow> string list" where
  "tag_slugs f = (case f_tags f of None \<Rightarrow> [] | Some (One s) \<Rightarrow> (if s = [] then [] else [s])
     | Some (Many xs) \<Rightarrow> xs)"

text \<open>
  The filter object that \<^verbatim>\<open>getContentByTag(tagSlug, limit = 10, offset = 0)\<close> passes to
  \<^verbatim>\<open>getFilteredContent\<close>: \<^verbatim>\<open>{ tags: tagSlug, limit, offset }\<close>.
\<close>

definition getContentByTag_filters :: "string \<Rightarrow> int \<Rightarrow> int \<Rightarrow> filters" where
  "getContentByTag_filters tagSlug limit offset =
     no_filters\<lparr> f_tags := Some (One tagSlug), f_limit := Some limit, f_offset := Some offset \<rparr>"

section \<open>The store\<close>

text \<open>
  A row of the table \<^verbatim>\<open>content\<close>, with the columns the two modules read and write; the
  fields carry the prefix \<open>c_\<close>. A column that may hold \<^verbatim>\<open>NULL\<close> is an option. The type
  parameter is the type of identifiers: strings (UUIDs) in \<^verbatim>\<open>ContentService\<close>, numbers (row
  ids) in the free functions.
\<close>

record 'i content_row =
  c_id :: 'i
  c_title :: string
  c_type :: string
  c_status :: "string option"
  c_body :: "string option"
  c_rendered_body :: "string option"
  c_slug :: string
  c_description :: "string option"
  c_metadata :: "string option"
  c_children :: "string option"
  c_created_at :: string
  c_updated_at :: string
  c_published_at :: "string option"
  c_likes :: int
  c_saves :: int

text \<open>A row of \<^verbatim>\<open>tags\<close>, with the columns the tag queries select.\<close>

record 'i tag =
  t_id :: 'i
  t_name :: string
  t_slug :: string
  t_created_at :: string
  t_updated_at :: string

text \<open>
  A change of one row of \<^verbatim>\<open>content_to_tags\<close>. The store keeps a journal of them, so that a
  row that was deleted and inserted again can be told from a row that was left alone.
\<close>

datatype 'a change = Deleted 'a | Inserted 'a

text \<open>
  The database behind the handle (\<^verbatim>\<open>this.db\<close>, \<^verbatim>\<open>db\<close>): the three tables, whether a
  transaction is open, and the journal. Every call of the driver (\<^verbatim>\<open>exec\<close>, \<^verbatim>\<open>prepare\<close>,
  \<^verbatim>\<open>run\<close>, \<^verbatim>\<open>get\<close>, \<^verbatim>\<open>all\<close>) is counted in \<open>calls\<close>, and the call number \<open>n\<close> raises a
  store-level failure when \<open>faults n\<close> holds: the failures are an input of the model.
  \<open>next_rowid\<close> is the row id the next \<^verbatim>\<open>INSERT\<close> without an id gets, \<open>current_timestamp\<close>
  the value of \<^verbatim>\<open>CURRENT_TIMESTAMP\<close>.
\<close>

record 'i db =
  content :: "'i content_row list"
  tags :: "'i tag list"
  content_to_tags :: "('i \<times> 'i) list"
  in_transaction :: bool
  journal :: "('i \<times> 'i) change list"
  calls :: nat
  faults :: "nat \<Rightarrow> bool"
  next_rowid :: int
  current_timestamp :: string

text \<open>
  What a function of the source can throw: an error of the store, the
  \<^verbatim>\<open>SyntaxError\<close> of \<^verbatim>\<open>JSON.parse\<close>, or the error of the driver for a statement that is
  run with a parameter left without a value.
\<close>

datatype exn = StoreError | SyntaxError | MissingParameter

text \<open>
  A computation on the store: it ends with an exception or a value, and the store as it
  left it. \<open>bind\<close> runs the second computation after the first unless that one threw.
\<close>

type_synonym ('i, 'a) io = "'i db \<Rightarrow> (exn + 'a) \<times> 'i db"

definition ret :: "'a \<Rightarrow> ('i, 'a) io" where
  "ret x d = (Inr x, d)"

definition throw :: "exn \<Rightarrow> ('i, 'a) io" where
  "throw e d = (Inl e, d)"

definition bind :: "('i, 'a) io \<Rightarrow> ('a \<Rightarrow> ('i, 'b) io) \<Rightarrow> ('i, 'b) io" where
  "bind m k d = (case m d of (Inl e, d1) \<Rightarrow> (Inl e, d1) | (Inr x, d1) \<Rightarrow> k x d1)"

text \<open>One call of the driver: counted, and failing when the fault input says so.\<close>

definition driver_call :: "('i db \<Rightarrow> (exn + 'a) \<times> 'i db) \<Rightarrow> ('i, 'a) io" where
  "driver_call act d =
     (let d1 = d\<lparr> calls := Suc (calls d) \<rparr>
      in if faults d (calls d) then (Inl StoreError, d1) else act d1)"

text \<open>
  \<^verbatim>\<open>db.exec('BEGIN TRANSACTION')\<close>, \<^verbatim>\<open>db.exec('COMMIT')\<close>, \<^verbatim>\<open>db.exec('ROLLBACK')\<close>. SQLite
  refuses to begin a transaction inside one, and to commit or roll back outside one. The
  functions that open a transaction only read, so a rollback restores no data.
\<close>

definition exec_begin :: "('i, unit) io" where
  "exec_begin = driver_call (\<lambda>d.
     if in_transaction d then (Inl StoreError, d) else (Inr (), d\<lparr> in_transaction := True \<rparr>))"

definition exec_commit :: "('i, unit) io" where
  "exec_commit = driver_call (\<lambda>d.
     if in_transaction d then (Inr (), d\<lparr> in_transaction := False \<rparr>) else (Inl StoreError, d))"

definition exec_rollback :: "('i, unit) io" where
  "exec_rollback = driver_call (\<lambda>d.
     if in_transaction d then (Inr (), d\<lparr> in_transaction := False \<rparr>) else (Inl StoreError, d))"

text \<open>\<^verbatim>\<open>db.prepare(sql)\<close>: a call of the driver that changes no data.\<close>

definition prepare :: "('i, unit) io" where
  "prepare = driver_call (\<lambda>d. (Inr (), d))"

text \<open>\<^verbatim>\<open>SELECT * FROM content WHERE id = ?\<close>, run with \<^verbatim>\<open>.get(id)\<close>: the first row, or none.\<close>

definition select_content :: "'i \<Rightarrow> ('i, 'i content_row option) io" where
  "select_content i = driver_call (\<lambda>d. (Inr (find (\<lambda>r. c_id r = i) (content d)), d))"

text \<open>
  \<^verbatim>\<open>SELECT t.id, t.name, t.slug, t.created_at, t.updated_at FROM tags t
  JOIN content_to_tags ctt ON t.id = ctt.tag_id WHERE ctt.content_id = ?\<close>, run with
  \<^verbatim>\<open>.all(id)\<close>: one row for each pair of the content and each tag the pair names.
\<close>

definition tags_of :: "'i db \<Rightarrow> 'i \<Rightarrow> 'i tag list" where
  "tags_of d i = concat (map (\<lambda>(c, t). if c = i then filter (\<lambda>tg. t_id tg = t) (tags d) else [])
     (content_to_tags d))"

definition select_tags :: "'i \<Rightarrow> ('i, 'i tag list) io" where
  "select_tags i = driver_call (\<lambda>d. (Inr (tags_of d i), d))"

section \<open>The aggregate assembler: \<^verbatim>\<open>ContentService.getContentById\<close>\<close>

text \<open>
  The value \<^verbatim>\<open>getContentById\<close> returns: the row, its \<^verbatim>\<open>tags\<close>, and \<^verbatim>\<open>children\<close>, which is
  either what the column stores (a string or \<^verbatim>\<open>null\<close>) or an array of such values.
\<close>

datatype 'i aggregate = Aggregate (a_row: "'i content_row") (a_tags: "'i tag list")
    (a_children: "'i kids")
  and 'i kids = Stored "string option" | Resolved "'i aggregate list"

text \<open>
  What the code distinguishes in the result of \<^verbatim>\<open>JSON.parse(content.children)\<close>: it throws,
  it returns something that is no array, or it returns an array (of identifiers).
\<close>

datatype 'i parsed = ParseError | NotArray | IdArray "'i list"

text \<open>
  What the service takes from outside this file: the built-ins \<^verbatim>\<open>JSON.parse\<close> and
  \<^verbatim>\<open>JSON.stringify\<close>, the \<^verbatim>\<open>SearchService\<close> (\<^verbatim>\<open>search({ query })\<close> returns the candidate
  identifiers), and the SQL engine for the two queries the builder assembles as text: the
  identifiers \<^verbatim>\<open>.all(...params)\<close> returns, and the \<^verbatim>\<open>total\<close> of the row \<^verbatim>\<open>.get(...params)\<close>
  returns, if any.
\<close>

record 'i env =
  json_parse :: "string \<Rightarrow> 'i parsed"
  json_stringify :: "'i list \<Rightarrow> string"
  search :: "string \<Rightarrow> 'i list"
  select_ids :: "string \<Rightarrow> sqlv list \<Rightarrow> 'i db \<Rightarrow> 'i list"
  select_total :: "string \<Rightarrow> sqlv list \<Rightarrow> 'i db \<Rightarrow> int option"

text \<open>
  The loop \<^verbatim>\<open>for (const childId of childrenIds)\<close>: a child that is found gets its tags and
  \<^verbatim>\<open>children = []\<close> and is pushed to \<^verbatim>\<open>childrenContent\<close>; a child that is not found is
  skipped.
\<close>

fun load_children :: "'i list \<Rightarrow> 'i aggregate list \<Rightarrow> ('i, 'i aggregate list) io" where
  "load_children [] childrenContent = ret childrenContent"
| "load_children (childId # rest) childrenContent =
     bind (select_content childId) (\<lambda>childContent.
       case childContent of
         None \<Rightarrow> load_children rest childrenContent
       | Some row \<Rightarrow>
           bind (select_tags childId) (\<lambda>childTags.
             load_children rest (childrenContent @ [Aggregate row childTags (Resolved [])])))"

text \<open>
  The inner \<^verbatim>\<open>try\<close> block, for a stored string \<open>raw\<close>: parse it; for a non-empty array,
  prepare the two statements and run the loop; otherwise leave \<^verbatim>\<open>content.children\<close> as it
  is.
\<close>

definition parse_children :: "'i env \<Rightarrow> string \<Rightarrow> ('i, 'i kids) io" where
  "parse_children env raw =
     (case json_parse env raw of
        ParseError \<Rightarrow> throw SyntaxError
      | NotArray \<Rightarrow> ret (Stored (Some raw))
      | IdArray childrenIds \<Rightarrow>
          if length childrenIds > 0
          then bind prepare (\<lambda>_. bind prepare (\<lambda>_.
                 bind (load_children childrenIds []) (\<lambda>childrenContent.
                   ret (Resolved childrenContent))))
          else ret (Stored (Some raw)))"

text \<open>
  The inner \<^verbatim>\<open>try\<close> with its \<^verbatim>\<open>catch\<close>, which sets \<^verbatim>\<open>content.children = []\<close>; and the
  test before it, \<^verbatim>\<open>content.type === 'collection' && typeof content.children === 'string'\<close>.
\<close>

definition resolve_children :: "'i env \<Rightarrow> 'i content_row \<Rightarrow> ('i, 'i kids) io" where
  "resolve_children env row d =
     (case c_children row of
        Some raw \<Rightarrow>
          if c_type row = ''collection''
          then (case parse_children env raw d of
                  (Inl e, d1) \<Rightarrow> (Inr (Resolved []), d1)
                | (Inr k, d1) \<Rightarrow> (Inr k, d1))
          else (Inr (Stored (Some raw)), d)
      | None \<Rightarrow> (Inr (Stored None), d))"

text \<open>The outer \<^verbatim>\<open>try\<close> block.\<close>

definition getContentById_try :: "'i env \<Rightarrow> 'i \<Rightarrow> ('i, 'i aggregate option) io" where
  "getContentById_try env i =
     bind exec_begin (\<lambda>_.
     bind prepare (\<lambda>_.
     bind (select_content i) (\<lambda>content.
       case content of
         None \<Rightarrow> bind exec_rollback (\<lambda>_. ret None)
       | Some row \<Rightarrow>
           bind prepare (\<lambda>_.
           bind (select_tags i) (\<lambda>tags.
           bind (resolve_children env row) (\<lambda>children.
           bind exec_commit (\<lambda>_.
           ret (Some (Aggregate row tags children)))))))))"

text \<open>
  \<^verbatim>\<open>getContentById(id: string): Content | null\<close>. A falsy id returns \<^verbatim>\<open>null\<close> at once. The
  outer \<^verbatim>\<open>catch\<close> tries a rollback, swallows its failure, and returns \<^verbatim>\<open>null\<close>.
\<close>

definition getContentById :: "string env \<Rightarrow> string \<Rightarrow> string db \<Rightarrow> string aggregate option \<times> string db" where
  "getContentById env i d =
     (if i = [] then (None, d)
      else case getContentById_try env i d of
             (Inr res, d1) \<Rightarrow> (res, d1)
           | (Inl e, d1) \<Rightarrow> (None, snd (exec_rollback d1)))"

section \<open>\<^verbatim>\<open>getFilteredContent\<close> and \<^verbatim>\<open>getFilteredContentCount\<close>\<close>

text \<open>\<^verbatim>\<open>ids.map(({ id }) => this.getContentById(id))\<close>\<close>

fun map_getContentById :: "string env \<Rightarrow> string list \<Rightarrow> string db \<Rightarrow>
    string aggregate option list \<times> string db" where
  "map_getContentById env [] d = ([], d)"
| "map_getContentById env (i # ids) d =
     (case getContentById env i d of
        (r, d1) \<Rightarrow> (case map_getContentById env ids d1 of (rs, d2) \<Rightarrow> (r # rs, d2)))"

text \<open>\<^verbatim>\<open>.filter((content): content is Content => content !== null)\<close>\<close>

definition not_null :: "'a option list \<Rightarrow> 'a list" where
  "not_null rs = map the (filter (\<lambda>r. r \<noteq> None) rs)"

text \<open>
  The end of \<^verbatim>\<open>getFilteredContent\<close>, from \<^verbatim>\<open>this.db.prepare(query).all(...params)\<close> on. No
  \<^verbatim>\<open>try\<close> surrounds it: a failure of the store propagates.
\<close>

definition run_list_query :: "string env \<Rightarrow> builder \<Rightarrow> (string, string aggregate list) io" where
  "run_list_query env b =
     bind prepare (\<lambda>_.
     bind (driver_call (\<lambda>d. (Inr (select_ids env (query b) (params b) d), d))) (\<lambda>ids d.
       case map_getContentById env ids d of (rs, d1) \<Rightarrow> (Inr (not_null rs), d1)))"

definition getFilteredContent :: "string env \<Rightarrow> filters \<Rightarrow> (string, string aggregate list) io" where
  "getFilteredContent env f d =
     (let contentIds = (case search_trimmed f of
                          Some q \<Rightarrow> if q \<noteq> [] then search env q else []
                        | None \<Rightarrow> [])
      in if truthy_str (search_trimmed f) \<and> length contentIds = 0 then (Inr [], d)
         else run_list_query env (list_builder f contentIds) d)"

text \<open>
  The end of \<^verbatim>\<open>getFilteredContentCount\<close>:
  \<^verbatim>\<open>const result = this.db.prepare(query).get(...params); return result?.total || 0\<close>.
\<close>

definition run_count_query :: "string env \<Rightarrow> builder \<Rightarrow> (string, int) io" where
  "run_count_query env b =
     bind prepare (\<lambda>_.
     bind (driver_call (\<lambda>d. (Inr (select_total env (query b) (params b) d), d))) (\<lambda>result.
       ret (case result of None \<Rightarrow> 0 | Some n \<Rightarrow> n)))"

definition getFilteredContentCount :: "string env \<Rightarrow> filters \<Rightarrow> (string, int) io" where
  "getFilteredContentCount env f d =
     (let contentIds = (case search_trimmed f of
                          Some q \<Rightarrow> if q \<noteq> [] then search env q else []
                        | None \<Rightarrow> [])
      in if truthy_str (search_trimmed f) \<and> length contentIds = 0 then (Inr 0, d)
         else run_count_query env (count_builder f contentIds) d)"

section \<open>The mutations of \<^verbatim>\<open>ContentService\<close>\<close>

text \<open>
  \<^verbatim>\<open>try { ... } catch (e) { ... }\<close>: the handler runs on the store as the failed block left
  it.
\<close>

definition catch :: "('i, 'a) io \<Rightarrow> (exn \<Rightarrow> ('i, 'a) io) \<Rightarrow> ('i, 'a) io" where
  "catch m h d = (case m d of (Inl e, d1) \<Rightarrow> h e d1 | (Inr x, d1) \<Rightarrow> (Inr x, d1))"

text \<open>
  The argument of \<^verbatim>\<open>addContent\<close> and \<^verbatim>\<open>updateContent\<close> (the optional \<^verbatim>\<open>metadata\<close> is never
  read); the fields carry the prefix \<open>d_\<close>.
\<close>

record content_data =
  d_title :: string
  d_slug :: string
  d_description :: string
  d_type :: string
  d_status :: string
  d_body :: string
  d_tags :: "string list"

text \<open>Running an \<^verbatim>\<open>INSERT INTO content\<close> that names the id: the row is added.\<close>

definition insert_content :: "'i content_row \<Rightarrow> ('i, unit) io" where
  "insert_content row = driver_call (\<lambda>d. (Inr (), d\<lparr> content := content d @ [row] \<rparr>))"

text \<open>
  \<^verbatim>\<open>INSERT INTO content_to_tags (content_id, tag_id) VALUES (?, ?)\<close>, run once. The pairs of
  the table are unique (\<^verbatim>\<open>update_content_tags\<close> relies on it with \<^verbatim>\<open>ON CONFLICT DO NOTHING\<close>),
  so inserting a pair that is present is a failure of the store.
\<close>

definition insert_pair :: "'i \<Rightarrow> 'i \<Rightarrow> ('i, unit) io" where
  "insert_pair c t = driver_call (\<lambda>d.
     if (c, t) \<in> set (content_to_tags d) then (Inl StoreError, d)
     else (Inr (), d\<lparr> content_to_tags := content_to_tags d @ [(c, t)],
                       journal := journal d @ [Inserted (c, t)] \<rparr>))"

text \<open>\<^verbatim>\<open>for (const tag of data.tags) { insertTagStmt.run(id, tag) }\<close>\<close>

fun insert_pairs :: "'i \<Rightarrow> 'i list \<Rightarrow> ('i, unit) io" where
  "insert_pairs c [] = ret ()"
| "insert_pairs c (t # ts) = bind (insert_pair c t) (\<lambda>_. insert_pairs c ts)"

text \<open>
  \<^verbatim>\<open>addContent(data)\<close>. The identifier \<^verbatim>\<open>crypto.randomUUID()\<close> and the time
  \<^verbatim>\<open>new Date().toISOString()\<close> are arguments of the model. The columns the statement does not
  name (\<^verbatim>\<open>rendered_body\<close>, \<^verbatim>\<open>metadata\<close>, \<^verbatim>\<open>children\<close>) are \<^verbatim>\<open>NULL\<close>. There is no \<^verbatim>\<open>try\<close>: a
  failure of the store propagates.
\<close>

definition addContent :: "content_data \<Rightarrow> string \<Rightarrow> string \<Rightarrow> (string, string) io" where
  "addContent data i now =
     bind prepare (\<lambda>_.
     bind (insert_content \<lparr> c_id = i, c_title = d_title data, c_type = d_type data,
             c_status = Some (d_status data), c_body = Some (d_body data),
             c_rendered_body = None, c_slug = d_slug data,
             c_description = Some (d_description data), c_metadata = None, c_children = None,
             c_created_at = now, c_updated_at = now,
             c_published_at = (if d_status data = ''published'' then Some now else None),
             c_likes = 0, c_saves = 0 \<rparr>) (\<lambda>_.
     bind (if length (d_tags data) > 0
           then bind prepare (\<lambda>_. insert_pairs i (d_tags data))
           else ret ()) (\<lambda>_.
     ret i)))"

text \<open>
  The \<^verbatim>\<open>CASE\<close> of the \<^verbatim>\<open>UPDATE\<close> in \<^verbatim>\<open>updateContent\<close>, for the status \<open>old\<close> the row holds before
  the statement (column names in a \<^verbatim>\<open>SET\<close> expression denote the old row) and the new status:
  \<^verbatim>\<open>WHEN status != 'published' AND ? = 'published' THEN ?
    WHEN status = 'published' AND ? != 'published' THEN NULL ELSE published_at\<close>.
  A comparison with \<^verbatim>\<open>NULL\<close> is not true.
\<close>

definition published_at_case :: "string option \<Rightarrow> string \<Rightarrow> string \<Rightarrow> string option \<Rightarrow> string option" where
  "published_at_case old new now published_at =
     (if (case old of None \<Rightarrow> False | Some s \<Rightarrow> s \<noteq> ''published'') \<and> new = ''published''
      then Some now
      else if old = Some ''published'' \<and> new \<noteq> ''published'' then None
      else published_at)"

text \<open>The \<^verbatim>\<open>UPDATE content SET ... WHERE id = ?\<close> of \<^verbatim>\<open>updateContent\<close>, run.\<close>

definition update_row :: "string \<Rightarrow> content_data \<Rightarrow> string \<Rightarrow> (string, unit) io" where
  "update_row i data now = driver_call (\<lambda>d.
     (Inr (), d\<lparr> content := map (\<lambda>r. if c_id r = i
        then r\<lparr> c_title := d_title data, c_slug := d_slug data,
                c_description := Some (d_description data), c_type := d_type data,
                c_status := Some (d_status data), c_body := Some (d_body data),
                c_updated_at := now,
                c_published_at := published_at_case (c_status r) (d_status data) now
                                    (c_published_at r) \<rparr>
        else r) (content d) \<rparr>))"

text \<open>\<^verbatim>\<open>DELETE FROM content_to_tags WHERE content_id = ?\<close>, run.\<close>

definition delete_pairs :: "'i \<Rightarrow> ('i, unit) io" where
  "delete_pairs i = driver_call (\<lambda>d.
     (Inr (), d\<lparr> content_to_tags := filter (\<lambda>(c, t). c \<noteq> i) (content_to_tags d),
                   journal := journal d @
                     map Deleted (filter (\<lambda>(c, t). c = i) (content_to_tags d)) \<rparr>))"

text \<open>
  \<^verbatim>\<open>updateContent(id, data)\<close>: the update of the row, the deletion of every pair of the
  content, and the insertion of the new tags. No \<^verbatim>\<open>try\<close>, no transaction.
\<close>

definition updateContent :: "string \<Rightarrow> content_data \<Rightarrow> string \<Rightarrow> (string, unit) io" where
  "updateContent i data now =
     bind prepare (\<lambda>_.
     bind (update_row i data now) (\<lambda>_.
     bind prepare (\<lambda>_.
     bind (delete_pairs i) (\<lambda>_.
     if length (d_tags data) > 0
     then bind prepare (\<lambda>_. insert_pairs i (d_tags data))
     else ret ()))))"

section \<open>The mutations of the free functions\<close>

text \<open>
  Modelled from the spec: the constant \<^verbatim>\<open>Status.DRAFT\<close> is imported from
  \<^verbatim>\<open>$lib/server/db/common\<close>, which is not among the sources; the spec names the status
  \<^verbatim>\<open>draft\<close>.
\<close>

definition Status_DRAFT :: string where
  "Status_DRAFT = ''draft''"

text \<open>
  \<^verbatim>\<open>ContentInput\<close>, with the prefix \<open>i_\<close>. \<^verbatim>\<open>metadata\<close> is kept as the text
  \<^verbatim>\<open>JSON.stringify\<close> gives for it.
\<close>

record content_input =
  i_title :: string
  i_type :: string
  i_status :: "string option"
  i_body :: "string option"
  i_rendered_body :: "string option"
  i_slug :: string
  i_description :: "string option"
  i_metadata :: "string option"
  i_children :: "int list option"
  i_tags :: "int list option"

text \<open>
  \<^verbatim>\<open>stmt.run({ contentId }, ...tags)\<close>: a run whose first argument is an object of
  bindings. The driver of this module (\<^verbatim>\<open>bun:sqlite\<close>, with the parameters \<^verbatim>\<open>@name\<close> bound from
  the keys \<^verbatim>\<open>name\<close> as in \<^verbatim>\<open>create_content\<close>) binds the statement from that object alone: the
  values that follow it fill no placeholder, and a statement with a parameter left without
  a value is not executed, the run throws. The statements of \<^verbatim>\<open>update_content_tags\<close> have
  one placeholder \<^verbatim>\<open>?\<close> for each element of \<^verbatim>\<open>tags\<close>; \<open>rest\<close> is the list of the values given
  for them.
\<close>

definition run_with_object :: "'v list \<Rightarrow> ('i db \<Rightarrow> (exn + 'a) \<times> 'i db) \<Rightarrow> ('i, 'a) io" where
  "run_with_object rest stmt = driver_call (\<lambda>d.
     if rest = [] then stmt d else (Inl MissingParameter, d))"

text \<open>
  The two statements of \<^verbatim>\<open>update_content_tags\<close>, run in this way:
  \<^verbatim>\<open>DELETE FROM content_to_tags WHERE content_id = @contentId AND tag_id NOT IN (...)\<close> and
  \<^verbatim>\<open>INSERT INTO content_to_tags (content_id, tag_id) SELECT @contentId, tags.id FROM tags
  WHERE tags.id in (...) ON CONFLICT DO NOTHING\<close>: one candidate pair for each row of \<^verbatim>\<open>tags\<close>
  whose id is in the list, skipped when the pair is present.
\<close>

definition remove_tags :: "'i \<Rightarrow> 'i list \<Rightarrow> ('i, unit) io" where
  "remove_tags contentId ts = run_with_object ts (\<lambda>d.
     (Inr (), d\<lparr> content_to_tags :=
                     filter (\<lambda>(c, t). \<not> (c = contentId \<and> t \<notin> set ts)) (content_to_tags d),
                   journal := journal d @
                     map Deleted (filter (\<lambda>(c, t). c = contentId \<and> t \<notin> set ts)
                       (content_to_tags d)) \<rparr>))"

definition upsert_pair :: "'i \<Rightarrow> 'i \<Rightarrow> 'i db \<Rightarrow> 'i db" where
  "upsert_pair c t d =
     (if (c, t) \<in> set (content_to_tags d) then d
      else d\<lparr> content_to_tags := content_to_tags d @ [(c, t)],
               journal := journal d @ [Inserted (c, t)] \<rparr>)"

definition upsert_tags :: "'i \<Rightarrow> 'i list \<Rightarrow> ('i, unit) io" where
  "upsert_tags contentId ts = run_with_object ts (\<lambda>d.
     (Inr (), fold (\<lambda>tg. upsert_pair contentId (t_id tg))
                (filter (\<lambda>tg. t_id tg \<in> set ts) (tags d)) d))"

text \<open>
  \<^verbatim>\<open>update_content_tags(contentId, tags)\<close>: the two statements are prepared outside the
  \<^verbatim>\<open>try\<close>, run inside it; the \<^verbatim>\<open>catch\<close> logs. When the first run throws, the second statement
  is not run.
\<close>

definition update_content_tags :: "'i \<Rightarrow> 'i list \<Rightarrow> ('i, unit) io" where
  "update_content_tags contentId ts =
     bind prepare (\<lambda>_.
     bind prepare (\<lambda>_.
     catch (bind (remove_tags contentId ts) (\<lambda>_. upsert_tags contentId ts))
           (\<lambda>e. ret ())))"

text \<open>\<^verbatim>\<open>DELETE FROM content WHERE id = ?\<close>, run: the result is \<^verbatim>\<open>changes\<close>.\<close>

definition delete_row :: "'i \<Rightarrow> ('i, nat) io" where
  "delete_row i = driver_call (\<lambda>d.
     (Inr (length (filter (\<lambda>r. c_id r = i) (content d))),
      d\<lparr> content := filter (\<lambda>r. c_id r \<noteq> i) (content d) \<rparr>))"

text \<open>\<^verbatim>\<open>delete_content(id)\<close>\<close>

definition delete_content :: "int \<Rightarrow> (int, bool) io" where
  "delete_content i =
     bind prepare (\<lambda>_.
     catch (bind (delete_row i) (\<lambda>changes. ret (changes > 0)))
           (\<lambda>e. ret False))"

text \<open>
  The \<^verbatim>\<open>INSERT INTO content (title, type, status, body, rendered_body, slug, description,
  metadata, children, created_at, updated_at)\<close> of \<^verbatim>\<open>create_content\<close>, run: the row gets the
  next row id, the result is \<^verbatim>\<open>lastInsertRowid\<close>. The statement names neither
  \<^verbatim>\<open>published_at\<close> nor the counters: they get the defaults of the columns, taken to be
  \<^verbatim>\<open>NULL\<close> and 0.
\<close>

definition insert_input :: "int env \<Rightarrow> content_input \<Rightarrow> (int, int) io" where
  "insert_input env inp = driver_call (\<lambda>d.
     (Inr (next_rowid d),
      d\<lparr> content := content d @
             [\<lparr> c_id = next_rowid d, c_title = i_title inp, c_type = i_type inp,
                c_status = Some (case i_status inp of None \<Rightarrow> Status_DRAFT | Some s \<Rightarrow> s),
                c_body = i_body inp, c_rendered_body = i_rendered_body inp,
                c_slug = i_slug inp, c_description = i_description inp,
                c_metadata = i_metadata inp,
                c_children = map_option (json_stringify env) (i_children inp),
                c_created_at = current_timestamp d, c_updated_at = current_timestamp d,
                c_published_at = None, c_likes = 0, c_saves = 0 \<rparr>],
          next_rowid := next_rowid d + 1 \<rparr>))"

text \<open>\<^verbatim>\<open>tags ?? []\<close>\<close>

definition tags_or_empty :: "content_input \<Rightarrow> int list" where
  "tags_or_empty inp = (case i_tags inp of None \<Rightarrow> [] | Some ts \<Rightarrow> ts)"

text \<open>\<^verbatim>\<open>create_content(input): number | null\<close>\<close>

definition create_content :: "int env \<Rightarrow> content_input \<Rightarrow> (int, int option) io" where
  "create_content env inp =
     bind prepare (\<lambda>_.
     catch (bind (insert_input env inp) (\<lambda>lastInsertRowid.
            bind (update_content_tags lastInsertRowid (tags_or_empty inp)) (\<lambda>_.
            ret (Some lastInsertRowid))))
           (\<lambda>e. ret None))"

text \<open>
  The \<^verbatim>\<open>UPDATE content SET title = @title, ..., updated_at = CURRENT_TIMESTAMP WHERE id = @id\<close>
  of \<^verbatim>\<open>update_content\<close>, run: the result is \<^verbatim>\<open>changes\<close>. An absent optional field is bound
  as \<^verbatim>\<open>NULL\<close>. The statement does not name \<^verbatim>\<open>published_at\<close>.
\<close>

definition update_input :: "int env \<Rightarrow> int \<Rightarrow> content_input \<Rightarrow> (int, nat) io" where
  "update_input env i inp = driver_call (\<lambda>d.
     (Inr (length (filter (\<lambda>r. c_id r = i) (content d))),
      d\<lparr> content := map (\<lambda>r. if c_id r = i
        then r\<lparr> c_title := i_title inp, c_type := i_type inp, c_status := i_status inp,
                c_body := i_body inp, c_rendered_body := i_rendered_body inp,
                c_slug := i_slug inp, c_description := i_description inp,
                c_metadata := i_metadata inp,
                c_children := map_option (json_stringify env) (i_children inp),
                c_updated_at := current_timestamp d \<rparr>
        else r) (content d) \<rparr>))"

text \<open>\<^verbatim>\<open>update_content(input & { id }): boolean\<close>\<close>

definition update_content :: "int env \<Rightarrow> int \<Rightarrow> content_input \<Rightarrow> (int, bool) io" where
  "update_content env i inp =
     bind prepare (\<lambda>_.
     catch (bind (update_input env i inp) (\<lambda>changes.
            bind (update_content_tags i (tags_or_empty inp)) (\<lambda>_.
            ret (changes > 0))))
           (\<lambda>e. ret False))"

section \<open>Auxiliary notions and a small store for the examples\<close>

text \<open>A computation never lowers the number of driver calls.\<close>

definition counts :: "('i, 'a) io \<Rightarrow> bool" where
  "counts m = (\<forall>d. calls d \<le> calls (snd (m d)))"

text \<open>A store in which no driver call fails.\<close>

definition healthy :: "'i db \<Rightarrow> bool" where
  "healthy d = (\<forall>n. \<not> faults d n)"

text \<open>
  The store of the examples: a collection \<^verbatim>\<open>c1\<close> whose children are \<^verbatim>\<open>["a","x","b"]\<close>, of
  which \<^verbatim>\<open>x\<close> does not exist; an empty collection \<^verbatim>\<open>c0\<close>; the articles \<^verbatim>\<open>a\<close> and \<^verbatim>\<open>b\<close>; two
  tags.
\<close>

definition dq :: char where "dq = CHR 0x22"

definition axb_json :: string where
  "axb_json = ''['' @ [dq] @ ''a'' @ [dq] @ '','' @ [dq] @ ''x'' @ [dq] @ '','' @ [dq] @ ''b'' @ [dq] @ '']''"

definition ex_row :: "string \<Rightarrow> string \<Rightarrow> string option \<Rightarrow> string content_row" where
  "ex_row i ty ch = \<lparr> c_id = i, c_title = i, c_type = ty, c_status = Some ''published'',
     c_body = None, c_rendered_body = None, c_slug = i, c_description = None, c_metadata = None,
     c_children = ch, c_created_at = ''2024-01-01'', c_updated_at = ''2024-01-01'',
     c_published_at = Some ''2024-01-01'', c_likes = 0, c_saves = 0 \<rparr>"

definition ex_tag :: "string \<Rightarrow> string \<Rightarrow> string tag" where
  "ex_tag i s = \<lparr> t_id = i, t_name = s, t_slug = s, t_created_at = ''2024-01-01'',
     t_updated_at = ''2024-01-01'' \<rparr>"

definition ex_db :: "string db" where
  "ex_db = \<lparr> content = [ex_row ''c1'' ''collection'' (Some axb_json),
                         ex_row ''c0'' ''collection'' (Some ''[]''),
                         ex_row ''a'' ''article'' None, ex_row ''b'' ''article'' None],
     tags = [ex_tag ''t1'' ''svelte'', ex_tag ''t2'' ''kit''],
     content_to_tags = [(''a'', ''t1''), (''b'', ''t2''), (''c1'', ''t1'')],
     in_transaction = False, journal = [], calls = 0, faults = (\<lambda>n. False),
     next_rowid = 1, current_timestamp = ''2024-06-01 00:00:00'' \<rparr>"

text \<open>
  The surroundings of the examples: \<^verbatim>\<open>JSON.parse\<close> on the two texts the store holds; a
  search that knows the word \<^verbatim>\<open>svelte\<close>; an engine that answers every list query with
  the identifiers \<^verbatim>\<open>a\<close>, \<^verbatim>\<open>gone\<close>, \<^verbatim>\<open>b\<close> (the second is in no row) and every count query
  with 2.
\<close>

definition ex_env :: "string env" where
  "ex_env = \<lparr> json_parse = (\<lambda>s. if s = axb_json then IdArray [''a'', ''x'', ''b'']
                               else if s = ''[]'' then IdArray [] else ParseError),
     json_stringify = (\<lambda>xs. ''[]''),
     search = (\<lambda>q. if q = ''svelte'' then [''a''] else []),
     select_ids = (\<lambda>q ps d. [''a'', ''gone'', ''b'']),
     select_total = (\<lambda>q ps d. Some 2) \<rparr>"

text \<open>
  For the statement about collections: whether an identifier still resolves to a row; the
  aggregate the loop of \<open>load_children\<close> builds for one that does; and that two states
  of the store hold the same tables.
\<close>

definition exists_row :: "'i db \<Rightarrow> 'i \<Rightarrow> bool" where
  "exists_row d i = (find (\<lambda>r. c_id r = i) (content d) \<noteq> None)"

definition child_of :: "'i db \<Rightarrow> 'i \<Rightarrow> 'i aggregate" where
  "child_of d i = Aggregate (the (find (\<lambda>r. c_id r = i) (content d))) (tags_of d i) (Resolved [])"

definition same_tables :: "'i db \<Rightarrow> 'i db \<Rightarrow> bool" where
  "same_tables d d1 = (content d1 = content d \<and> tags d1 = tags d \<and>
     content_to_tags d1 = content_to_tags d)"

text \<open>
  For the statement about the list of \<^verbatim>\<open>getFilteredContent\<close>: the aggregate of an identifier as
  the tables give it, without the driver. \<open>children_of\<close> is the \<^verbatim>\<open>children\<close> of a row: the
  stored value, unless the row is a collection whose text does not parse (then the empty
  list) or parses to a non-empty array (then the aggregates of the identifiers that resolve
  to a row). \<open>hydrated\<close> is the row of the identifier with its tags and these children, and
  nothing for the empty identifier and for an identifier without a row.
\<close>

definition children_of :: "'i env \<Rightarrow> 'i db \<Rightarrow> 'i content_row \<Rightarrow> 'i kids" where
  "children_of env d row =
     (case c_children row of
        None \<Rightarrow> Stored None
      | Some raw \<Rightarrow>
          if c_type row = ''collection''
          then (case json_parse env raw of
                  ParseError \<Rightarrow> Resolved []
                | NotArray \<Rightarrow> Stored (Some raw)
                | IdArray ids \<Rightarrow>
                    if ids = [] then Stored (Some raw)
                    else Resolved (map (child_of d) (filter (exists_row d) ids)))
          else Stored (Some raw))"

definition hydrated :: "string env \<Rightarrow> string db \<Rightarrow> string \<Rightarrow> string aggregate option" where
  "hydrated env d i =
     (if i = [] then None
      else case find (\<lambda>r. c_id r = i) (content d) of
             None \<Rightarrow> None
           | Some row \<Rightarrow> Some (Aggregate row (tags_of d i) (children_of env d row)))"

text \<open>
  An engine for the examples that answers every list query with the identifiers \<^verbatim>\<open>c1\<close>,
  \<^verbatim>\<open>gone\<close>, \<^verbatim>\<open>a\<close>.
\<close>

definition ex_env_list :: "string env" where
  "ex_env_list = ex_env\<lparr> select_ids := (\<lambda>q ps d. [''c1'', ''gone'', ''a'']) \<rparr>"

text \<open>
  Stores for the examples of the mutations. In the service's store the collection \<^verbatim>\<open>c1\<close>
  carries the tags 1, 2, 3 and the article \<^verbatim>\<open>a\<close> the tag 1. The store of the free functions
  holds the draft 7 with the tags 1, 2, 3, the content 8 with the tag 1, and the tags 1 to
  4 (there is no tag 5).
\<close>

definition ex_tagged :: "string db" where
  "ex_tagged = ex_db\<lparr> content_to_tags :=
     [(''c1'', ''1''), (''c1'', ''2''), (''c1'', ''3''), (''a'', ''1'')] \<rparr>"

definition ex_data :: "string \<Rightarrow> string list \<Rightarrow> content_data" where
  "ex_data st ts = \<lparr> d_title = ''T'', d_slug = ''t'', d_description = ''D'', d_type = ''article'',
     d_status = st, d_body = ''B'', d_tags = ts \<rparr>"

definition ex_mtag :: "int \<Rightarrow> int tag" where
  "ex_mtag i = \<lparr> t_id = i, t_name = ''tag'', t_slug = ''tag'', t_created_at = ''2024-01-01'',
     t_updated_at = ''2024-01-01'' \<rparr>"

definition ex_mrow :: "int \<Rightarrow> string \<Rightarrow> int content_row" where
  "ex_mrow i st = \<lparr> c_id = i, c_title = ''T'', c_type = ''article'', c_status = Some st,
     c_body = None, c_rendered_body = None, c_slug = ''t'', c_description = None,
     c_metadata = None, c_children = None, c_created_at = ''2024-01-01'',
     c_updated_at = ''2024-01-01'', c_published_at = None, c_likes = 0, c_saves = 0 \<rparr>"

definition ex_mdb :: "int db" where
  "ex_mdb = \<lparr> content = [ex_mrow 7 ''draft'', ex_mrow 8 ''draft''],
     tags = [ex_mtag 1, ex_mtag 2, ex_mtag 3, ex_mtag 4],
     content_to_tags = [(7, 1), (7, 2), (7, 3), (8, 1)],
     in_transaction = False, journal = [], calls = 0, faults = (\<lambda>n. False),
     next_rowid = 9, current_timestamp = ''2024-06-01 00:00:00'' \<rparr>"

definition ex_menv :: "int env" where
  "ex_menv = \<lparr> json_parse = (\<lambda>s. ParseError), json_stringify = (\<lambda>xs. ''[]''),
     search = (\<lambda>q. []), select_ids = (\<lambda>q ps d. []), select_total = (\<lambda>q ps d. None) \<rparr>"

definition ex_input :: "string option \<Rightarrow> int list option \<Rightarrow> content_input" where
  "ex_input st ts = \<lparr> i_title = ''T'', i_type = ''article'', i_status = st, i_body = None,
     i_rendered_body = None, i_slug = ''t'', i_description = None, i_metadata = None,
     i_children = None, i_tags = ts \<rparr>"

text \<open>
  The invariant of the data model for one row: \<^verbatim>\<open>published_at\<close> is set exactly when the
  status is \<^verbatim>\<open>published\<close>.
\<close>

definition published_iff :: "'i content_row \<Rightarrow> bool" where
  "published_iff r = (c_published_at r \<noteq> None \<longleftrightarrow> c_status r = Some ''published'')"

text \<open>
  A computation in which no failure of the driver is caught: when it returns a value, none
  of the driver calls it made had failed.
\<close>

definition propagates :: "('i, 'a) io \<Rightarrow> bool" where
  "propagates m = (\<forall>d x d1. m d = (Inr x, d1) \<longrightarrow>
     faults d1 = faults d \<and> calls d \<le> calls d1 \<and>
     (\<forall>n. calls d \<le> n \<and> n < calls d1 \<longrightarrow> \<not> faults d n))"

section \<open>Properties of the filter query builder\<close>

text \<open>What each block of the builder contributes to the four local variables.\<close>

lemma add_search_fields:
  "query (add_search f ids b) = query b"
  "havingConditions (add_search f ids b) = havingConditions b"
  "whereConditions (add_search f ids b) = whereConditions b @
     (if truthy_str (search_trimmed f) then [''c.id IN ('' @ placeholders ids @ '')''] else [])"
  "params (add_search f ids b) = params b @
     (if truthy_str (search_trimmed f) then map SText ids else [])"
  by (simp_all add: add_search_def)

lemma add_status_fields:
  "query (add_status f b) = query b"
  "havingConditions (add_status f b) = havingConditions b"
  "whereConditions (add_status f b) = whereConditions b @
     (if f_status f = Some ''all'' then []
      else [if truthy_str (f_status f) then ''c.status = ?'' else status_published])"
  "params (add_status f b) = params b @
     (case f_status f of None \<Rightarrow> [] | Some s \<Rightarrow> if s = ''all'' \<or> s = [] then [] else [SText s])"
  by (simp_all add: add_status_def Let_def split: option.splits)

lemma add_type_fields:
  "query (add_type f b) = query b"
  "havingConditions (add_type f b) = havingConditions b"
  "whereConditions (add_type f b) = whereConditions b @
     (if truthy_str (f_type f) then [''c.type = ?''] else [])"
  "params (add_type f b) = params b @
     (case f_type f of None \<Rightarrow> [] | Some t \<Rightarrow> if t = [] then [] else [SText t])"
  by (simp_all add: add_type_def truthy_str_def split: option.splits)

lemma add_tags_fields:
  "query (add_tags f b) = query b @ (if tag_slugs f = [] then [] else tag_joins)"
  "havingConditions (add_tags f b) = havingConditions b @
     (if length (tag_slugs f) > 1 then [''COUNT(DISTINCT t.slug) = ?''] else [])"
  "whereConditions (add_tags f b) = whereConditions b @
     (if tag_slugs f = [] then [] else [''t.slug IN ('' @ placeholders (tag_slugs f) @ '')''])"
  "params (add_tags f b) = params b @ map SText (tag_slugs f) @
     (if length (tag_slugs f) > 1 then [SInt (int (length (tag_slugs f)))] else [])"
  by (auto simp add: add_tags_def tag_slugs_def truthy_tags_def tags_array_def Let_def
      split: option.splits tags_filter.splits)

lemma grouped_iff: "grouped f \<longleftrightarrow> length (tag_slugs f) > 1"
  by (auto simp add: grouped_def tag_slugs_def split: option.splits tags_filter.splits)

lemma add_where_fields:
  "query (add_where b) = query b @
     (if whereConditions b = [] then [] else '' WHERE '' @ join '' AND '' (whereConditions b))"
  "havingConditions (add_where b) = havingConditions b"
  "whereConditions (add_where b) = whereConditions b"
  "params (add_where b) = params b"
  by (simp_all add: add_where_def)

lemma add_group_fields:
  "query (add_group f b) = query b @
     (if grouped f then '' GROUP BY c.id'' @
        (if havingConditions b = [] then [] else '' HAVING '' @ join '' AND '' (havingConditions b))
      else [])"
  "havingConditions (add_group f b) = havingConditions b"
  "whereConditions (add_group f b) = whereConditions b"
  "params (add_group f b) = params b"
  by (simp_all add: add_group_def Let_def)

lemma add_order_fields:
  "query (add_order f b) = query b @ '' ORDER BY '' @
     (if f_sort f = Some ''latest'' then ''c.published_at DESC, c.created_at DESC''
      else if f_sort f = Some ''oldest'' then ''c.published_at ASC, c.created_at ASC''
      else if f_sort f = Some ''popular'' then ''c.likes DESC, c.saves DESC''
      else ''c.published_at DESC, c.created_at DESC'')"
  "havingConditions (add_order f b) = havingConditions b"
  "whereConditions (add_order f b) = whereConditions b"
  "params (add_order f b) = params b"
  by (simp_all add: add_order_def Let_def)

lemma add_pagination_fields:
  "query (add_pagination f b) = query b @
     (case f_limit f of None \<Rightarrow> [] | Some l \<Rightarrow> if l = 0 then [] else '' LIMIT ?'' @
        (case f_offset f of None \<Rightarrow> [] | Some off \<Rightarrow> if off = 0 then [] else '' OFFSET ?''))"
  "havingConditions (add_pagination f b) = havingConditions b"
  "whereConditions (add_pagination f b) = whereConditions b"
  "params (add_pagination f b) = params b @
     (case f_limit f of None \<Rightarrow> [] | Some l \<Rightarrow> if l = 0 then [] else SInt l #
        (case f_offset f of None \<Rightarrow> [] | Some off \<Rightarrow> if off = 0 then [] else [SInt off]))"
  by (simp_all add: add_pagination_def Let_def split: option.splits)

lemma wrap_count_fields:
  "query (wrap_count f b) =
     (if grouped f then ''SELECT COUNT(*) as total FROM ('' @ query b @ '')'' else query b)"
  "havingConditions (wrap_count f b) = havingConditions b"
  "whereConditions (wrap_count f b) = whereConditions b"
  "params (wrap_count f b) = params b"
  by (simp_all add: wrap_count_def)

lemmas stage_fields = add_search_fields add_status_fields add_type_fields add_tags_fields
  add_where_fields add_group_fields add_order_fields add_pagination_fields wrap_count_fields

lemma list_where:
  "whereConditions (list_builder f ids) =
     (if truthy_str (search_trimmed f) then [''c.id IN ('' @ placeholders ids @ '')''] else []) @
     (if f_status f = Some ''all'' then []
      else [if truthy_str (f_status f) then ''c.status = ?'' else status_published]) @
     (if truthy_str (f_type f) then [''c.type = ?''] else []) @
     (if tag_slugs f = [] then [] else [''t.slug IN ('' @ placeholders (tag_slugs f) @ '')''])"
  by (simp add: list_builder_def stage_fields)

lemma count_where:
  "whereConditions (count_builder f ids) = whereConditions (list_builder f ids)"
  by (simp add: count_builder_def list_builder_def stage_fields)

lemma count_params:
  "params (count_builder f ids) =
     (if truthy_str (search_trimmed f) then map SText ids else []) @
     (case f_status f of None \<Rightarrow> [] | Some s \<Rightarrow> if s = ''all'' \<or> s = [] then [] else [SText s]) @
     (case f_type f of None \<Rightarrow> [] | Some t \<Rightarrow> if t = [] then [] else [SText t]) @
     map SText (tag_slugs f) @
     (if length (tag_slugs f) > 1 then [SInt (int (length (tag_slugs f)))] else [])"
  by (simp add: count_builder_def stage_fields)

lemma list_params:
  "params (list_builder f ids) = params (count_builder f ids) @
     (case f_limit f of None \<Rightarrow> [] | Some l \<Rightarrow> if l = 0 then [] else SInt l #
        (case f_offset f of None \<Rightarrow> [] | Some off \<Rightarrow> if off = 0 then [] else [SInt off]))"
  by (simp add: count_builder_def list_builder_def stage_fields)

lemma list_having:
  "havingConditions (list_builder f ids) =
     (if length (tag_slugs f) > 1 then [''COUNT(DISTINCT t.slug) = ?''] else [])"
  by (simp add: list_builder_def stage_fields)

lemma count_having:
  "havingConditions (count_builder f ids) = havingConditions (list_builder f ids)"
  by (simp add: count_builder_def list_builder_def stage_fields)


lemma join_single: "join sep [x] = x" by simp

lemma group_text:
  "(if grouped f then '' GROUP BY c.id'' @
      (if (if length (tag_slugs f) > 1 then [c] else []) = [] then []
       else '' HAVING '' @ join '' AND '' (if length (tag_slugs f) > 1 then [c] else []))
    else []) =
   (if length (tag_slugs f) > 1 then '' GROUP BY c.id'' @ '' HAVING '' @ c else [])"
  by (simp add: grouped_iff)

lemma list_query:
  "query (list_builder f ids) = list_select @ (if tag_slugs f = [] then [] else tag_joins) @
     (if whereConditions (list_builder f ids) = [] then []
      else '' WHERE '' @ join '' AND '' (whereConditions (list_builder f ids))) @
     (if length (tag_slugs f) > 1
      then '' GROUP BY c.id'' @ '' HAVING '' @ ''COUNT(DISTINCT t.slug) = ?'' else []) @
     '' ORDER BY '' @
     (if f_sort f = Some ''latest'' then ''c.published_at DESC, c.created_at DESC''
      else if f_sort f = Some ''oldest'' then ''c.published_at ASC, c.created_at ASC''
      else if f_sort f = Some ''popular'' then ''c.likes DESC, c.saves DESC''
      else ''c.published_at DESC, c.created_at DESC'') @
     (case f_limit f of None \<Rightarrow> [] | Some l \<Rightarrow> if l = 0 then [] else '' LIMIT ?'' @
        (case f_offset f of None \<Rightarrow> [] | Some off \<Rightarrow> if off = 0 then [] else '' OFFSET ?''))"
  unfolding list_where unfolding list_builder_def
  by (simp only: stage_fields builder.select_convs append_Nil append_assoc group_text)

lemma count_query:
  "query (count_builder f ids) =
     (if length (tag_slugs f) > 1 then ''SELECT COUNT(*) as total FROM ('' else []) @
     count_select @ (if tag_slugs f = [] then [] else tag_joins) @
     (if whereConditions (count_builder f ids) = [] then []
      else '' WHERE '' @ join '' AND '' (whereConditions (count_builder f ids))) @
     (if length (tag_slugs f) > 1
      then '' GROUP BY c.id'' @ '' HAVING '' @ ''COUNT(DISTINCT t.slug) = ?'' @ '')'' else [])"
proof (cases "length (tag_slugs f) > 1")
  case True
  then show ?thesis
    unfolding count_where list_where unfolding count_builder_def
    by (simp only: stage_fields builder.select_convs append_Nil append_assoc group_text
        grouped_iff if_True if_False list.distinct join.simps)
next
  case False
  then show ?thesis
    unfolding count_where list_where unfolding count_builder_def
    by (simp only: stage_fields builder.select_convs append_Nil append_Nil2 append_assoc
        group_text grouped_iff if_True if_False list.distinct join.simps)
qed

subsection \<open>The WHERE clause of the emitted text\<close>

lemma where_in_list_query:
  assumes ne: "whereConditions (list_builder f ids) \<noteq> []"
  shows "sublist ('' WHERE '' @ join '' AND '' (whereConditions (list_builder f ids)))
     (query (list_builder f ids))"
proof -
  have "\<exists>pre post. query (list_builder f ids) =
      pre @ ('' WHERE '' @ join '' AND '' (whereConditions (list_builder f ids))) @ post"
    apply (subst list_query)
    apply (simp only: ne if_False)
    apply (rule exI, rule exI)
    apply (subst append_assoc[symmetric])
    apply (rule refl)
    done
  then obtain pre post where "query (list_builder f ids) =
      pre @ ('' WHERE '' @ join '' AND '' (whereConditions (list_builder f ids))) @ post"
    by blast
  then show ?thesis by (simp only: sublist_appendI)
qed

lemma where_in_count_query:
  assumes ne: "whereConditions (count_builder f ids) \<noteq> []"
  shows "sublist ('' WHERE '' @ join '' AND '' (whereConditions (count_builder f ids)))
     (query (count_builder f ids))"
proof -
  have "\<exists>pre post. query (count_builder f ids) =
      pre @ ('' WHERE '' @ join '' AND '' (whereConditions (count_builder f ids))) @ post"
    apply (subst count_query)
    apply (simp only: ne if_False)
    apply (rule exI, rule exI)
    apply (subst append_assoc[symmetric])
    apply (subst append_assoc[symmetric])
    apply (rule refl)
    done
  then obtain pre post where "query (count_builder f ids) =
      pre @ ('' WHERE '' @ join '' AND '' (whereConditions (count_builder f ids))) @ post"
    by blast
  then show ?thesis by (simp only: sublist_appendI)
qed

lemma search_trimmed_status [simp]:
  "search_trimmed (f\<lparr>f_status := s\<rparr>) = search_trimmed f"
  by (simp add: search_trimmed_def)

lemma tag_slugs_status [simp]: "tag_slugs (f\<lparr>f_status := s\<rparr>) = tag_slugs f"
  by (simp add: tag_slugs_def)

lemma status_all_list:
  "f_status f = Some ''all'' \<Longrightarrow>
     status_published \<notin> set (whereConditions (list_builder f ids)) \<and>
     ''c.status = ?'' \<notin> set (whereConditions (list_builder f ids))"
  by (simp add: list_where status_published_def)

lemma status_unset_list:
  "f_status f = None \<or> f_status f = Some [] \<Longrightarrow>
     whereConditions (list_builder f ids) =
       take (if truthy_str (search_trimmed f) then 1 else 0)
         (whereConditions (list_builder (f\<lparr>f_status := Some ''all''\<rparr>) ids)) @ [status_published] @
       drop (if truthy_str (search_trimmed f) then 1 else 0)
         (whereConditions (list_builder (f\<lparr>f_status := Some ''all''\<rparr>) ids))"
  by (auto simp add: list_where truthy_str_def)

lemma status_unset_params:
  "f_status f = None \<or> f_status f = Some [] \<Longrightarrow>
     params (count_builder f ids) = params (count_builder (f\<lparr>f_status := Some ''all''\<rparr>) ids)"
  by (auto simp add: count_params)

lemma status_explicit_list:
  "f_status f = Some s \<Longrightarrow> s \<noteq> [] \<Longrightarrow> s \<noteq> ''all'' \<Longrightarrow>
     whereConditions (list_builder f ids) =
       take (if truthy_str (search_trimmed f) then 1 else 0)
         (whereConditions (list_builder (f\<lparr>f_status := Some ''all''\<rparr>) ids)) @ [''c.status = ?''] @
       drop (if truthy_str (search_trimmed f) then 1 else 0)
         (whereConditions (list_builder (f\<lparr>f_status := Some ''all''\<rparr>) ids))"
  by (simp add: list_where truthy_str_def)

lemma status_explicit_params:
  "f_status f = Some s \<Longrightarrow> s \<noteq> [] \<Longrightarrow> s \<noteq> ''all'' \<Longrightarrow>
     params (count_builder f ids) =
       take (if truthy_str (search_trimmed f) then length ids else 0)
         (params (count_builder (f\<lparr>f_status := Some ''all''\<rparr>) ids)) @ [SText s] @
       drop (if truthy_str (search_trimmed f) then length ids else 0)
         (params (count_builder (f\<lparr>f_status := Some ''all''\<rparr>) ids))"
  by (simp add: count_params)

lemma status_unset_params_list:
  "f_status f = None \<or> f_status f = Some [] \<Longrightarrow>
     params (list_builder f ids) = params (list_builder (f\<lparr>f_status := Some ''all''\<rparr>) ids)"
  by (auto simp add: list_params count_params split: option.splits)

lemma status_explicit_params_list:
  "f_status f = Some s \<Longrightarrow> s \<noteq> [] \<Longrightarrow> s \<noteq> ''all'' \<Longrightarrow>
     params (list_builder f ids) =
       take (if truthy_str (search_trimmed f) then length ids else 0)
         (params (list_builder (f\<lparr>f_status := Some ''all''\<rparr>) ids)) @ [SText s] @
       drop (if truthy_str (search_trimmed f) then length ids else 0)
         (params (list_builder (f\<lparr>f_status := Some ''all''\<rparr>) ids))"
  by (simp add: list_params count_params split: option.splits)

text \<open>
  C1 (amended). For both builders (the list query of \<^verbatim>\<open>getFilteredContent\<close> and the count
  query of \<^verbatim>\<open>getFilteredContentCount\<close>) the status predicate is a three-way switch, decided
  by JavaScript truthiness:
  \<^item> status \<^verbatim>\<open>'all'\<close>: neither \<^verbatim>\<open>c.status = 'published'\<close> nor \<^verbatim>\<open>c.status = ?\<close> is among the
    conditions;
  \<^item> status unset, or the empty string: relative to the query for \<^verbatim>\<open>'all'\<close>, exactly the condition
    \<^verbatim>\<open>c.status = 'published'\<close> is added (after the search condition) and no parameter is bound;
  \<^item> any other non-empty status \<open>s\<close>: exactly the condition \<^verbatim>\<open>c.status = ?\<close> is added at that place
    and \<open>s\<close> is bound at the matching place of the parameter list (after the candidate
    identifiers of the search);
  \<^item> the conditions reach the emitted text joined by \<^verbatim>\<open>AND\<close> behind \<^verbatim>\<open>WHERE\<close>.
\<close>

theorem status_three_way_switch:
  assumes B: "B = list_builder \<or> B = count_builder"
  shows "(f_status f = Some ''all'' \<longrightarrow>
            status_published \<notin> set (whereConditions (B f ids)) \<and>
            ''c.status = ?'' \<notin> set (whereConditions (B f ids)))
       \<and> (f_status f = None \<or> f_status f = Some [] \<longrightarrow>
            whereConditions (B f ids) =
              take (if truthy_str (search_trimmed f) then 1 else 0)
                (whereConditions (B (f\<lparr>f_status := Some ''all''\<rparr>) ids)) @ [status_published] @
              drop (if truthy_str (search_trimmed f) then 1 else 0)
                (whereConditions (B (f\<lparr>f_status := Some ''all''\<rparr>) ids)) \<and>
            params (B f ids) = params (B (f\<lparr>f_status := Some ''all''\<rparr>) ids))
       \<and> (\<forall>s. f_status f = Some s \<and> s \<noteq> [] \<and> s \<noteq> ''all'' \<longrightarrow>
            whereConditions (B f ids) =
              take (if truthy_str (search_trimmed f) then 1 else 0)
                (whereConditions (B (f\<lparr>f_status := Some ''all''\<rparr>) ids)) @ [''c.status = ?''] @
              drop (if truthy_str (search_trimmed f) then 1 else 0)
                (whereConditions (B (f\<lparr>f_status := Some ''all''\<rparr>) ids)) \<and>
            params (B f ids) =
              take (if truthy_str (search_trimmed f) then length ids else 0)
                (params (B (f\<lparr>f_status := Some ''all''\<rparr>) ids)) @ [SText s] @
              drop (if truthy_str (search_trimmed f) then length ids else 0)
                (params (B (f\<lparr>f_status := Some ''all''\<rparr>) ids)))
       \<and> (whereConditions (B f ids) \<noteq> [] \<longrightarrow>
            sublist ('' WHERE '' @ join '' AND '' (whereConditions (B f ids))) (query (B f ids)))"
  using B
proof
  assume "B = list_builder"
  then show ?thesis
    using status_all_list[of f ids] status_unset_list[of f ids] status_unset_params_list[of f ids]
      status_explicit_list[of f _ ids] status_explicit_params_list[of f _ ids]
      where_in_list_query[of f ids]
    by blast
next
  assume "B = count_builder"
  then show ?thesis
    using status_all_list[of f ids] status_unset_list[of f ids] status_unset_params[of f ids]
      status_explicit_list[of f _ ids] status_explicit_params[of f _ ids]
      where_in_count_query[of f ids] count_where[of f ids]
      count_where[of "f\<lparr>f_status := Some ''all''\<rparr>" ids]
    by (simp only:) blast
qed

text \<open>The switch at three concrete filters: status \<^verbatim>\<open>'draft'\<close>, \<^verbatim>\<open>'all'\<close> and unset.\<close>

theorem status_three_way_switch_witness:
  "(list_builder = list_builder \<or> list_builder = count_builder) \<and>
   f_status (no_filters\<lparr>f_status := Some ''draft''\<rparr>) = Some ''draft'' \<and>
   whereConditions (list_builder (no_filters\<lparr>f_status := Some ''draft''\<rparr>) []) = [''c.status = ?''] \<and>
   params (list_builder (no_filters\<lparr>f_status := Some ''draft''\<rparr>) []) = [SText ''draft''] \<and>
   whereConditions (list_builder (no_filters\<lparr>f_status := Some ''all''\<rparr>) []) = [] \<and>
   whereConditions (list_builder no_filters []) = [status_published] \<and>
   params (list_builder no_filters []) = []"
proof -
  have B: "list_builder = list_builder \<or> list_builder = count_builder" by simp
  have a: "whereConditions (list_builder (no_filters\<lparr>f_status := Some ''all''\<rparr>) []) = []"
    and p: "params (list_builder (no_filters\<lparr>f_status := Some ''all''\<rparr>) []) = []"
    by (simp_all add: list_where list_params count_params no_filters_def truthy_str_def
        search_trimmed_def tag_slugs_def)
  show ?thesis
    using status_three_way_switch[OF B, of "no_filters\<lparr>f_status := Some ''draft''\<rparr>" "[]"]
      status_three_way_switch[OF B, of "no_filters" "[]"] a p
    by (simp add: no_filters_def search_trimmed_def truthy_str_def)
qed

text \<open>
  C1 as stated fails for the explicit value \<^verbatim>\<open>''\<close>: it is not \<^verbatim>\<open>'all'\<close>, yet the query restricts
  to published rows instead of rows whose status is the empty string.
\<close>

theorem status_empty_string_counterexample:
  "f_status (no_filters\<lparr>f_status := Some ''''\<rparr>) = Some '''' \<and> '''' \<noteq> ''all'' \<and>
   whereConditions (list_builder (no_filters\<lparr>f_status := Some ''''\<rparr>) []) = [status_published] \<and>
   params (list_builder (no_filters\<lparr>f_status := Some ''''\<rparr>) []) = [] \<and>
   whereConditions (count_builder (no_filters\<lparr>f_status := Some ''''\<rparr>) []) = [status_published] \<and>
   params (count_builder (no_filters\<lparr>f_status := Some ''''\<rparr>) []) = [] \<and>
   status_published = ''c.status = '' @ [CHR 0x27] @ ''published'' @ [CHR 0x27]"
  by (simp add: list_where count_where list_params count_params no_filters_def truthy_str_def
      search_trimmed_def tag_slugs_def status_published_def sq_def)

subsection \<open>Pagination\<close>

lemma tag_slugs_page [simp]:
  "tag_slugs (f\<lparr>f_limit := l\<rparr>) = tag_slugs f" "tag_slugs (f\<lparr>f_offset := off\<rparr>) = tag_slugs f"
  by (simp_all add: tag_slugs_def)

lemma search_trimmed_page [simp]:
  "search_trimmed (f\<lparr>f_limit := l\<rparr>) = search_trimmed f"
  "search_trimmed (f\<lparr>f_offset := off\<rparr>) = search_trimmed f"
  by (simp_all add: search_trimmed_def)

lemma list_where_page:
  "whereConditions (list_builder (f\<lparr>f_limit := l, f_offset := off\<rparr>) ids) =
   whereConditions (list_builder f ids)"
  by (simp add: list_where)

lemma list_query_page:
  "query (list_builder f ids) =
   query (list_builder (f\<lparr>f_limit := None, f_offset := None\<rparr>) ids) @
     (case f_limit f of None \<Rightarrow> [] | Some l \<Rightarrow> if l = 0 then [] else '' LIMIT ?'' @
        (case f_offset f of None \<Rightarrow> [] | Some off \<Rightarrow> if off = 0 then [] else '' OFFSET ?''))"
  unfolding list_query[of f ids] list_query[of "f\<lparr>f_limit := None, f_offset := None\<rparr>" ids]
  by (simp add: list_where_page split del: if_split cong: if_cong)

lemma count_params_page:
  "params (count_builder (f\<lparr>f_limit := l, f_offset := off\<rparr>) ids) = params (count_builder f ids)"
  by (simp add: count_params)

lemma list_params_page:
  "params (list_builder f ids) =
   params (list_builder (f\<lparr>f_limit := None, f_offset := None\<rparr>) ids) @
     (case f_limit f of None \<Rightarrow> [] | Some l \<Rightarrow> if l = 0 then [] else SInt l #
        (case f_offset f of None \<Rightarrow> [] | Some off \<Rightarrow> if off = 0 then [] else [SInt off]))"
  unfolding list_params[of f ids] list_params[of "f\<lparr>f_limit := None, f_offset := None\<rparr>" ids]
  by (simp add: count_params_page split del: if_split)

lemma stages_ignore_offset:
  "add_search (f\<lparr>f_offset := off\<rparr>) ids b = add_search f ids b"
  "add_status (f\<lparr>f_offset := off\<rparr>) b = add_status f b"
  "add_type (f\<lparr>f_offset := off\<rparr>) b = add_type f b"
  "add_tags (f\<lparr>f_offset := off\<rparr>) b = add_tags f b"
  "add_group (f\<lparr>f_offset := off\<rparr>) b = add_group f b"
  "add_order (f\<lparr>f_offset := off\<rparr>) b = add_order f b"
  by (simp_all add: add_search_def add_status_def add_type_def add_tags_def add_group_def
      add_order_def search_trimmed_def grouped_def Let_def cong: if_cong)

lemma pagination_without_limit: "f_limit f = None \<Longrightarrow> add_pagination f b = b"
  by (simp add: add_pagination_def)

lemma offset_without_limit:
  "list_builder (f\<lparr>f_limit := None\<rparr>) ids = list_builder (f\<lparr>f_limit := None, f_offset := None\<rparr>) ids"
  unfolding list_builder_def
  by (simp add: stages_ignore_offset pagination_without_limit split del: if_split)

text \<open>
  C7 (amended). In the list query of \<^verbatim>\<open>getFilteredContent\<close> the clause \<^verbatim>\<open>LIMIT ?\<close>, with the
  limit as its bound parameter, is appended exactly when the limit is present and not zero;
  the clause \<^verbatim>\<open>OFFSET ?\<close>, with the offset as its parameter, is appended exactly when moreover
  the offset is present and not zero. Nothing else of the text or of the parameter list
  depends on the two fields, and an offset without a limit changes nothing at all.
\<close>

theorem pagination_appended:
  "query (list_builder f ids) =
     query (list_builder (f\<lparr>f_limit := None, f_offset := None\<rparr>) ids) @
     (case f_limit f of None \<Rightarrow> [] | Some l \<Rightarrow> if l = 0 then [] else '' LIMIT ?'' @
        (case f_offset f of None \<Rightarrow> [] | Some off \<Rightarrow> if off = 0 then [] else '' OFFSET ?''))
   \<and> params (list_builder f ids) =
     params (list_builder (f\<lparr>f_limit := None, f_offset := None\<rparr>) ids) @
     (case f_limit f of None \<Rightarrow> [] | Some l \<Rightarrow> if l = 0 then [] else SInt l #
        (case f_offset f of None \<Rightarrow> [] | Some off \<Rightarrow> if off = 0 then [] else [SInt off]))
   \<and> list_builder (f\<lparr>f_limit := None\<rparr>) ids =
     list_builder (f\<lparr>f_limit := None, f_offset := None\<rparr>) ids"
  using list_query_page[of f ids] list_params_page[of f ids] offset_without_limit[of f ids]
  by blast

text \<open>A limit of 10 with an offset of 20, and an offset of 20 alone.\<close>

theorem pagination_appended_witness:
  "query (list_builder (no_filters\<lparr>f_limit := Some 10, f_offset := Some 20\<rparr>) []) =
     query (list_builder no_filters []) @ '' LIMIT ? OFFSET ?'' \<and>
   params (list_builder (no_filters\<lparr>f_limit := Some 10, f_offset := Some 20\<rparr>) []) =
     params (list_builder no_filters []) @ [SInt 10, SInt 20] \<and>
   list_builder (no_filters\<lparr>f_offset := Some 20\<rparr>) [] = list_builder no_filters []"
  using pagination_appended[of "no_filters\<lparr>f_limit := Some 10, f_offset := Some 20\<rparr>" "[]"]
    pagination_appended[of "no_filters\<lparr>f_offset := Some 20\<rparr>" "[]"]
  by (simp add: no_filters_def)

text \<open>
  C7 as stated fails when the offset is present and zero, which is what
  \<^verbatim>\<open>getContentByTag\<close> passes by default: limit and offset are both present, and no
  \<^verbatim>\<open>OFFSET\<close> clause is appended.
\<close>

theorem offset_zero_counterexample:
  "f_limit (getContentByTag_filters ''svelte'' 10 0) = Some 10 \<and>
   f_offset (getContentByTag_filters ''svelte'' 10 0) = Some 0 \<and>
   query (list_builder (getContentByTag_filters ''svelte'' 10 0) []) =
     list_select @ tag_joins @ '' WHERE '' @ status_published @
     '' AND t.slug IN (?) ORDER BY c.published_at DESC, c.created_at DESC LIMIT ?'' \<and>
   params (list_builder (getContentByTag_filters ''svelte'' 10 0) []) = [SText ''svelte'', SInt 10]"
  by (simp add: list_query list_where list_params count_params getContentByTag_filters_def
      no_filters_def tag_slugs_def truthy_str_def search_trimmed_def placeholders_def)

subsection \<open>The tag filter\<close>

lemma set_join: "set sep \<subseteq> A \<Longrightarrow> \<forall>x \<in> set xs. set x \<subseteq> A \<Longrightarrow> set (join sep xs) \<subseteq> A"
  by (induction sep xs rule: join.induct) auto

lemma set_placeholders: "set (placeholders xs) \<subseteq> {CHR ''?'', CHR '',''}"
  unfolding placeholders_def by (rule set_join) auto

lemma G_notin_where: "CHR ''G'' \<notin> set (join '' AND '' (whereConditions (list_builder f ids)))"
proof -
  have "\<forall>c \<in> set (whereConditions (list_builder f ids)). set c \<subseteq> UNIV - {CHR ''G''}"
    using set_placeholders[of ids] set_placeholders[of "tag_slugs f"]
    by (auto simp add: list_where status_published_def sq_def)
  then have "set (join '' AND '' (whereConditions (list_builder f ids))) \<subseteq> UNIV - {CHR ''G''}"
    by (intro set_join) auto
  then show ?thesis by blast
qed

lemma G_notin_list_query:
  assumes "length (tag_slugs f) \<le> 1"
  shows "CHR ''G'' \<notin> set (query (list_builder f ids))"
  unfolding list_query[of f ids]
  using G_notin_where[of f ids] assms
  by (simp add: list_select_def tag_joins_def nl_def tab_def split: option.splits)

lemma G_notin_count_query:
  assumes "length (tag_slugs f) \<le> 1"
  shows "CHR ''G'' \<notin> set (query (count_builder f ids))"
  unfolding count_query[of f ids] count_where
  using G_notin_where[of f ids] assms
  by (simp add: count_select_def tag_joins_def nl_def)

lemma sublist_mid:
  "q = a @ x @ r \<Longrightarrow> sublist x q"
  "q = a @ b @ x @ r \<Longrightarrow> sublist x q"
  "q = a @ b @ c @ x @ r \<Longrightarrow> sublist x q"
  "q = a @ b @ c @ d @ x @ r \<Longrightarrow> sublist x q"
  by (metis sublist_appendI append_assoc)+

lemma group_literal:
  "'' GROUP BY c.id'' @ '' HAVING '' @ ''COUNT(DISTINCT t.slug) = ?'' @ r =
   '' GROUP BY c.id HAVING COUNT(DISTINCT t.slug) = ?'' @ r"
  by simp

lemma tag_joins_in_list_query:
  assumes ne: "tag_slugs f \<noteq> []"
  shows "sublist tag_joins (query (list_builder f ids))"
proof -
  have "\<exists>r. query (list_builder f ids) = list_select @ tag_joins @ r"
    by (subst list_query, simp only: ne if_False, rule exI, rule refl)
  then show ?thesis by (auto intro: sublist_mid(1))
qed

lemma tag_joins_in_count_query:
  assumes ne: "tag_slugs f \<noteq> []"
  shows "sublist tag_joins (query (count_builder f ids))"
proof -
  have "\<exists>a r. query (count_builder f ids) = a @ count_select @ tag_joins @ r"
    by (subst count_query, simp only: ne if_False, rule exI, rule exI, rule refl)
  then show ?thesis by (auto intro: sublist_mid(2))
qed

lemma group_in_list_query:
  assumes gt: "1 < length (tag_slugs f)"
  shows "sublist '' GROUP BY c.id HAVING COUNT(DISTINCT t.slug) = ?'' (query (list_builder f ids))"
proof -
  have "\<exists>a b r. query (list_builder f ids) =
      list_select @ a @ b @ '' GROUP BY c.id HAVING COUNT(DISTINCT t.slug) = ?'' @ r"
    by (subst list_query, simp only: gt if_True append_assoc group_literal, (rule exI)+, rule refl)
  then show ?thesis by (auto intro: sublist_mid(3))
qed

lemma group_in_count_query:
  assumes gt: "1 < length (tag_slugs f)"
  shows "sublist '' GROUP BY c.id HAVING COUNT(DISTINCT t.slug) = ?'' (query (count_builder f ids))"
proof -
  have "\<exists>a b c r. query (count_builder f ids) =
      a @ count_select @ b @ c @ '' GROUP BY c.id HAVING COUNT(DISTINCT t.slug) = ?'' @ r"
    by (subst count_query, simp only: gt if_True append_assoc group_literal, (rule exI)+, rule refl)
  then show ?thesis by (auto intro: sublist_mid(4))
qed

lemma tag_slugs_no_tags [simp]: "tag_slugs (f\<lparr>f_tags := None\<rparr>) = []"
  by (simp add: tag_slugs_def)

lemma search_trimmed_tags [simp]: "search_trimmed (f\<lparr>f_tags := t\<rparr>) = search_trimmed f"
  by (simp add: search_trimmed_def)

lemma list_where_tags:
  "whereConditions (list_builder f ids) = whereConditions (list_builder (f\<lparr>f_tags := None\<rparr>) ids) @
     (if tag_slugs f = [] then [] else [''t.slug IN ('' @ placeholders (tag_slugs f) @ '')''])"
  by (simp add: list_where)

lemma count_params_tags:
  "params (count_builder f ids) = params (count_builder (f\<lparr>f_tags := None\<rparr>) ids) @
     map SText (tag_slugs f) @
     (if length (tag_slugs f) > 1 then [SInt (int (length (tag_slugs f)))] else [])"
  by (simp add: count_params)

lemma list_params_tags:
  "params (list_builder f ids) = params (count_builder (f\<lparr>f_tags := None\<rparr>) ids) @
     map SText (tag_slugs f) @
     (if length (tag_slugs f) > 1 then [SInt (int (length (tag_slugs f)))] else []) @
     drop (length (params (count_builder (f\<lparr>f_tags := None\<rparr>) ids)))
       (params (list_builder (f\<lparr>f_tags := None\<rparr>) ids))"
  unfolding list_params[of f ids] list_params[of "f\<lparr>f_tags := None\<rparr>" ids]
    count_params_tags[of f ids]
  by (simp split del: if_split cong: if_cong option.case_cong)

lemma count_distinct_all:
  assumes "distinct ts"
  shows "card (S \<inter> set ts) = length ts \<longleftrightarrow> set ts \<subseteq> S"
proof
  assume c: "card (S \<inter> set ts) = length ts"
  have "card (set ts) = length ts" using assms by (simp add: distinct_card)
  then have "S \<inter> set ts = set ts"
    using c by (intro card_subset_eq) auto
  then show "set ts \<subseteq> S" by blast
next
  assume "set ts \<subseteq> S"
  then have "S \<inter> set ts = set ts" by blast
  then show "card (S \<inter> set ts) = length ts" using assms by (simp add: distinct_card)
qed

lemma tag_slugs_many: "f_tags f = Some (Many ts) \<Longrightarrow> tag_slugs f = ts"
  by (simp add: tag_slugs_def)

lemma tag_slugs_single:
  "f_tags f = Some (Many [s]) \<or> f_tags f = Some (One s) \<and> s \<noteq> [] \<Longrightarrow> tag_slugs f = [s]"
  by (auto simp add: tag_slugs_def)

lemma placeholders_single: "placeholders [s] = ''?''"
  by (simp add: placeholders_def)

lemma tags_many_list:
  assumes "tag_slugs f = ts" "1 < length ts"
  shows "sublist tag_joins (query (list_builder f ids)) \<and>
     whereConditions (list_builder f ids) =
       whereConditions (list_builder (f\<lparr>f_tags := None\<rparr>) ids) @
       [''t.slug IN ('' @ placeholders ts @ '')''] \<and>
     havingConditions (list_builder f ids) = [''COUNT(DISTINCT t.slug) = ?''] \<and>
     sublist '' GROUP BY c.id HAVING COUNT(DISTINCT t.slug) = ?'' (query (list_builder f ids)) \<and>
     params (list_builder f ids) =
       params (count_builder (f\<lparr>f_tags := None\<rparr>) ids) @ map SText ts @
       [SInt (int (length ts))] @
       drop (length (params (count_builder (f\<lparr>f_tags := None\<rparr>) ids)))
         (params (list_builder (f\<lparr>f_tags := None\<rparr>) ids))"
proof -
  have ne: "tag_slugs f \<noteq> []" and gt: "1 < length (tag_slugs f)" using assms by auto
  show ?thesis
    using tag_joins_in_list_query[OF ne, of ids] group_in_list_query[OF gt, of ids]
      list_where_tags[of f ids] list_having[of f ids] list_params_tags[of f ids] ne gt assms(1)
    by simp
qed

lemma tags_many_count:
  assumes "tag_slugs f = ts" "1 < length ts"
  shows "sublist tag_joins (query (count_builder f ids)) \<and>
     whereConditions (count_builder f ids) =
       whereConditions (count_builder (f\<lparr>f_tags := None\<rparr>) ids) @
       [''t.slug IN ('' @ placeholders ts @ '')''] \<and>
     havingConditions (count_builder f ids) = [''COUNT(DISTINCT t.slug) = ?''] \<and>
     sublist '' GROUP BY c.id HAVING COUNT(DISTINCT t.slug) = ?'' (query (count_builder f ids)) \<and>
     params (count_builder f ids) =
       params (count_builder (f\<lparr>f_tags := None\<rparr>) ids) @ map SText ts @
       [SInt (int (length ts))] @
       drop (length (params (count_builder (f\<lparr>f_tags := None\<rparr>) ids)))
         (params (count_builder (f\<lparr>f_tags := None\<rparr>) ids))"
proof -
  have ne: "tag_slugs f \<noteq> []" and gt: "1 < length (tag_slugs f)" using assms by auto
  show ?thesis
    using tag_joins_in_count_query[OF ne, of ids] group_in_count_query[OF gt, of ids]
      list_where_tags[of f ids] list_having[of f ids] count_params_tags[of f ids] ne gt assms(1)
    by (simp add: count_where count_having)
qed

lemma tags_single_list:
  assumes "tag_slugs f = [s]"
  shows "sublist tag_joins (query (list_builder f ids)) \<and>
     whereConditions (list_builder f ids) =
       whereConditions (list_builder (f\<lparr>f_tags := None\<rparr>) ids) @ [''t.slug IN (?)''] \<and>
     havingConditions (list_builder f ids) = [] \<and>
     CHR ''G'' \<notin> set (query (list_builder f ids)) \<and>
     params (list_builder f ids) =
       params (count_builder (f\<lparr>f_tags := None\<rparr>) ids) @ [SText s] @
       drop (length (params (count_builder (f\<lparr>f_tags := None\<rparr>) ids)))
         (params (list_builder (f\<lparr>f_tags := None\<rparr>) ids))"
proof -
  have ne: "tag_slugs f \<noteq> []" and le: "length (tag_slugs f) \<le> 1" using assms by auto
  show ?thesis
    using tag_joins_in_list_query[OF ne, of ids] G_notin_list_query[OF le, of ids]
      list_where_tags[of f ids] list_having[of f ids] list_params_tags[of f ids] assms
    by (simp add: placeholders_single)
qed

lemma tags_single_count:
  assumes "tag_slugs f = [s]"
  shows "sublist tag_joins (query (count_builder f ids)) \<and>
     whereConditions (count_builder f ids) =
       whereConditions (count_builder (f\<lparr>f_tags := None\<rparr>) ids) @ [''t.slug IN (?)''] \<and>
     havingConditions (count_builder f ids) = [] \<and>
     CHR ''G'' \<notin> set (query (count_builder f ids)) \<and>
     params (count_builder f ids) =
       params (count_builder (f\<lparr>f_tags := None\<rparr>) ids) @ [SText s] @
       drop (length (params (count_builder (f\<lparr>f_tags := None\<rparr>) ids)))
         (params (count_builder (f\<lparr>f_tags := None\<rparr>) ids))"
proof -
  have ne: "tag_slugs f \<noteq> []" and le: "length (tag_slugs f) \<le> 1" using assms by auto
  show ?thesis
    using tag_joins_in_count_query[OF ne, of ids] G_notin_count_query[OF le, of ids]
      list_where_tags[of f ids] list_having[of f ids] count_params_tags[of f ids] assms
    by (simp add: placeholders_single count_where count_having)
qed

text \<open>
  C2 (amended). For both builders:
  \<^item> when \<^verbatim>\<open>tags\<close> is an array of \<open>N > 1\<close> slugs, the emitted text joins \<^verbatim>\<open>content_to_tags\<close> and
    \<^verbatim>\<open>tags\<close>, the condition \<^verbatim>\<open>t.slug IN (?,...,?)\<close> with one placeholder per slug is added behind
    the other conditions, the text groups by \<^verbatim>\<open>c.id\<close> with
    \<^verbatim>\<open>HAVING COUNT(DISTINCT t.slug) = ?\<close>, and the slugs followed by \<open>N\<close> are bound behind the
    parameters of the other predicates (and before those of the pagination). For distinct
    slugs this is set intersection: among the slugs \<open>S\<close> of a content's tags, those of the list
    number \<open>N\<close> exactly when the whole list is in \<open>S\<close>;
  \<^item> when \<^verbatim>\<open>tags\<close> is a one-element array or a non-empty bare string, the same join and the
    condition \<^verbatim>\<open>t.slug IN (?)\<close> are emitted and the slug is bound; there is no HAVING condition,
    and neither \<^verbatim>\<open>GROUP BY\<close> nor \<^verbatim>\<open>HAVING\<close> is in the text (it has no letter \<^verbatim>\<open>G\<close>).
\<close>

theorem tags_filter_grouping:
  assumes B: "B = list_builder \<or> B = count_builder"
  shows "(\<forall>ts. f_tags f = Some (Many ts) \<and> 1 < length ts \<longrightarrow>
            sublist tag_joins (query (B f ids)) \<and>
            whereConditions (B f ids) =
              whereConditions (B (f\<lparr>f_tags := None\<rparr>) ids) @
              [''t.slug IN ('' @ placeholders ts @ '')''] \<and>
            havingConditions (B f ids) = [''COUNT(DISTINCT t.slug) = ?''] \<and>
            sublist '' GROUP BY c.id HAVING COUNT(DISTINCT t.slug) = ?'' (query (B f ids)) \<and>
            params (B f ids) =
              params (count_builder (f\<lparr>f_tags := None\<rparr>) ids) @ map SText ts @
              [SInt (int (length ts))] @
              drop (length (params (count_builder (f\<lparr>f_tags := None\<rparr>) ids)))
                (params (B (f\<lparr>f_tags := None\<rparr>) ids)) \<and>
            (distinct ts \<longrightarrow> (\<forall>S. card (S \<inter> set ts) = length ts \<longleftrightarrow> set ts \<subseteq> S)))
       \<and> (\<forall>s. f_tags f = Some (Many [s]) \<or> f_tags f = Some (One s) \<and> s \<noteq> [] \<longrightarrow>
            sublist tag_joins (query (B f ids)) \<and>
            whereConditions (B f ids) =
              whereConditions (B (f\<lparr>f_tags := None\<rparr>) ids) @ [''t.slug IN (?)''] \<and>
            havingConditions (B f ids) = [] \<and>
            CHR ''G'' \<notin> set (query (B f ids)) \<and>
            params (B f ids) =
              params (count_builder (f\<lparr>f_tags := None\<rparr>) ids) @ [SText s] @
              drop (length (params (count_builder (f\<lparr>f_tags := None\<rparr>) ids)))
                (params (B (f\<lparr>f_tags := None\<rparr>) ids)))"
  using B
proof
  assume "B = list_builder"
  then show ?thesis
    using tags_many_list[OF tag_slugs_many, of f _ ids] tags_single_list[OF tag_slugs_single, of f _ ids]
      count_distinct_all
    by blast
next
  assume "B = count_builder"
  then show ?thesis
    using tags_many_count[OF tag_slugs_many, of f _ ids] tags_single_count[OF tag_slugs_single, of f _ ids]
      count_distinct_all
    by blast
qed

text \<open>The count query for the tags \<^verbatim>\<open>["a","b"]\<close> and the list query for the bare tag \<^verbatim>\<open>"a"\<close>.\<close>

theorem tags_filter_grouping_witness:
  "(count_builder = list_builder \<or> count_builder = count_builder) \<and>
   query (count_builder (no_filters\<lparr>f_tags := Some (Many [''a'', ''b''])\<rparr>) []) =
     ''SELECT COUNT(*) as total FROM ('' @ count_select @ tag_joins @ '' WHERE '' @
     status_published @
     '' AND t.slug IN (?,?) GROUP BY c.id HAVING COUNT(DISTINCT t.slug) = ?)'' \<and>
   params (count_builder (no_filters\<lparr>f_tags := Some (Many [''a'', ''b''])\<rparr>) []) =
     [SText ''a'', SText ''b'', SInt 2] \<and>
   whereConditions (list_builder (no_filters\<lparr>f_tags := Some (One ''a'')\<rparr>) []) =
     [status_published, ''t.slug IN (?)''] \<and>
   params (list_builder (no_filters\<lparr>f_tags := Some (One ''a'')\<rparr>) []) = [SText ''a''] \<and>
   havingConditions (list_builder (no_filters\<lparr>f_tags := Some (One ''a'')\<rparr>) []) = []"
proof -
  have B: "count_builder = list_builder \<or> count_builder = count_builder"
    and B': "list_builder = list_builder \<or> list_builder = count_builder" by simp_all
  have base: "params (count_builder no_filters []) = []" "params (list_builder no_filters []) = []"
    "whereConditions (list_builder no_filters []) = [status_published]"
    by (simp_all add: count_params list_params list_where no_filters_def tag_slugs_def
        truthy_str_def search_trimmed_def)
  have q: "query (count_builder (no_filters\<lparr>f_tags := Some (Many [''a'', ''b''])\<rparr>) []) =
     ''SELECT COUNT(*) as total FROM ('' @ count_select @ tag_joins @ '' WHERE '' @
     status_published @
     '' AND t.slug IN (?,?) GROUP BY c.id HAVING COUNT(DISTINCT t.slug) = ?)''"
    by (simp add: count_query count_where list_where no_filters_def tag_slugs_def
        truthy_str_def search_trimmed_def placeholders_def)
  show ?thesis
    using tags_filter_grouping[OF B, of "no_filters\<lparr>f_tags := Some (Many [''a'', ''b''])\<rparr>" "[]"]
      tags_filter_grouping[OF B', of "no_filters\<lparr>f_tags := Some (One ''a'')\<rparr>" "[]"] base q
    by (simp add: no_filters_def)
qed

text \<open>
  C2 as stated fails for the bare string \<^verbatim>\<open>''\<close>: \<^verbatim>\<open>if (filters.tags)\<close> is false for it, so
  neither the join nor the \<^verbatim>\<open>IN\<close> filter is emitted and the query is that of no tag filter.
\<close>

theorem empty_tag_slug_counterexample:
  "f_tags (no_filters\<lparr>f_tags := Some (One '''')\<rparr>) = Some (One '''') \<and>
   list_builder (no_filters\<lparr>f_tags := Some (One '''')\<rparr>) [] = list_builder no_filters [] \<and>
   count_builder (no_filters\<lparr>f_tags := Some (One '''')\<rparr>) [] = count_builder no_filters [] \<and>
   query (list_builder no_filters []) = list_select @ '' WHERE '' @ status_published @
     '' ORDER BY c.published_at DESC, c.created_at DESC'' \<and>
   query (count_builder no_filters []) = count_select @ '' WHERE '' @ status_published \<and>
   whereConditions (list_builder no_filters []) = [status_published] \<and>
   params (list_builder no_filters []) = []"
  by (simp add: list_builder_def count_builder_def add_search_def add_status_def add_type_def
      add_tags_def add_where_def add_group_def add_order_def add_pagination_def wrap_count_def
      grouped_def truthy_tags_def truthy_str_def search_trimmed_def no_filters_def)

section \<open>Properties of the store computations\<close>

lemma bind_simps [simp]:
  "bind (ret x) k d = k x d"
  "bind (throw e) k d = (Inl e, d)"
  by (simp_all add: bind_def ret_def throw_def)

lemma bind_cases:
  "m d = (Inr x, d1) \<Longrightarrow> bind m k d = k x d1"
  "m d = (Inl e, d1) \<Longrightarrow> bind m k d = (Inl e, d1)"
  by (simp_all add: bind_def)

text \<open>The number of driver calls never goes down, and every driver call raises it.\<close>

lemma counts_ret [simp]: "counts (ret x)" "counts (throw e)"
  by (simp_all add: counts_def ret_def throw_def)

lemma counts_bind: "counts m \<Longrightarrow> (\<And>x. counts (k x)) \<Longrightarrow> counts (bind m k)"
  unfolding counts_def bind_def
  by (auto split: prod.splits sum.splits) (metis order_trans snd_conv)+

lemma driver_call_calls:
  "(\<And>d. calls (snd (act d)) = calls d) \<Longrightarrow> calls (snd (driver_call act d)) = Suc (calls d)"
  by (simp add: driver_call_def Let_def)

lemma driver_calls [simp]:
  "calls (snd (exec_begin d)) = Suc (calls d)"
  "calls (snd (exec_commit d)) = Suc (calls d)"
  "calls (snd (exec_rollback d)) = Suc (calls d)"
  "calls (snd (prepare d)) = Suc (calls d)"
  "calls (snd (select_content i d)) = Suc (calls d)"
  "calls (snd (select_tags i d)) = Suc (calls d)"
  by (simp_all add: exec_begin_def exec_commit_def exec_rollback_def prepare_def
      select_content_def select_tags_def driver_call_def Let_def)

lemma counts_driver [simp]:
  "counts exec_begin" "counts exec_commit" "counts exec_rollback" "counts prepare"
  "counts (select_content i)" "counts (select_tags i)"
  by (simp_all add: counts_def)

lemma counts_load_children [simp]: "counts (load_children ids acc)"
  by (induction ids arbitrary: acc) (auto intro!: counts_bind split: option.splits)

lemma counts_parse_children [simp]: "counts (parse_children env raw)"
  by (auto simp add: parse_children_def intro!: counts_bind split: parsed.splits)

lemma counts_resolve_children [simp]: "counts (resolve_children env row)"
  using counts_parse_children[of env]
  by (auto simp add: counts_def resolve_children_def split: option.splits prod.splits sum.splits)
     (metis snd_conv)+

lemma counts_getContentById_try [simp]: "counts (getContentById_try env i)"
  unfolding getContentById_try_def
  by (intro counts_bind counts_driver counts_resolve_children) (auto intro!: counts_bind split: option.splits)

lemma begin_then_counts:
  assumes "\<And>x. counts (k x)"
  shows "calls d < calls (snd (bind exec_begin k d))"
proof (cases "exec_begin d")
  case (Pair r d1)
  have c1: "calls d1 = Suc (calls d)" using driver_calls(1)[of d] Pair by simp
  show ?thesis
  proof (cases r)
    case (Inl e)
    then show ?thesis using Pair c1 by (simp add: bind_def)
  next
    case (Inr x)
    have "calls d1 \<le> calls (snd (k x d1))" using assms by (simp add: counts_def)
    then show ?thesis using Pair Inr c1 by (simp add: bind_def)
  qed
qed

lemma getContentById_try_calls: "calls d < calls (snd (getContentById_try env i d))"
  unfolding getContentById_try_def
  by (rule begin_then_counts) (auto intro!: counts_bind split: option.splits)

lemma getContentById_calls:
  "i \<noteq> [] \<Longrightarrow> calls d < calls (snd (getContentById env i d))"
  using getContentById_try_calls[of d env i]
  by (auto simp add: getContentById_def split: prod.splits sum.splits
      intro: less_trans[OF _ lessI])

text \<open>
  C9. For the falsy identifier (the parameter is a string, so the empty string),
  \<^verbatim>\<open>getContentById\<close> returns \<^verbatim>\<open>null\<close> and leaves the store exactly as it was: no transaction
  is opened and no driver call is made. For every other identifier the call does reach the
  driver.
\<close>

theorem falsy_id_returns_null:
  "getContentById env '''' d = (None, d) \<and>
   (\<forall>i. i \<noteq> '''' \<longrightarrow> calls d < calls (snd (getContentById env i d)))"
  using getContentById_calls by (simp add: getContentById_def)

text \<open>On the store of the examples: the empty identifier, and the collection \<^verbatim>\<open>c1\<close>, whose assembly takes 13 driver calls.\<close>

theorem falsy_id_returns_null_witness:
  "getContentById ex_env '''' ex_db = (None, ex_db) \<and> ''c1'' \<noteq> '''' \<and>
   calls ex_db = 0 \<and> calls (snd (getContentById ex_env ''c1'' ex_db)) = 13"
proof -
  have "calls (snd (getContentById ex_env ''c1'' ex_db)) = 13"
    by (simp add: getContentById_def getContentById_try_def bind_def exec_begin_def
        exec_commit_def prepare_def select_content_def select_tags_def driver_call_def
        resolve_children_def parse_children_def ret_def ex_db_def ex_env_def ex_row_def
        axb_json_def dq_def Let_def)
  then show ?thesis
    using falsy_id_returns_null[of ex_env ex_db] by (simp add: ex_db_def)
qed

subsection \<open>Reading from a store without failures\<close>

lemma healthy_update [simp]:
  "healthy (d\<lparr>calls := n\<rparr>) = healthy d"
  "healthy (d\<lparr>in_transaction := b\<rparr>) = healthy d"
  by (simp_all add: healthy_def)

lemma driver_call_healthy:
  "healthy d \<Longrightarrow> driver_call act d = act (d\<lparr>calls := Suc (calls d)\<rparr>)"
  by (simp add: driver_call_def healthy_def Let_def)

lemma same_tables_refl [simp]: "same_tables d d"
  by (simp add: same_tables_def)

lemma same_tables_update [simp]:
  "same_tables d (d1\<lparr>calls := n\<rparr>) = same_tables d d1"
  "same_tables d (d1\<lparr>in_transaction := b\<rparr>) = same_tables d d1"
  by (simp_all add: same_tables_def)

lemma same_tables_reads:
  assumes "same_tables d d1"
  shows "tags_of d1 i = tags_of d i" "exists_row d1 i = exists_row d i"
    "child_of d1 i = child_of d i"
    "find (\<lambda>r. c_id r = i) (content d1) = find (\<lambda>r. c_id r = i) (content d)"
  using assms by (simp_all add: same_tables_def tags_of_def exists_row_def child_of_def cong: if_cong)

lemma select_healthy:
  assumes "healthy d"
  shows "select_content i d = (Inr (find (\<lambda>r. c_id r = i) (content d)), d\<lparr>calls := Suc (calls d)\<rparr>)"
    and "select_tags i d = (Inr (tags_of d i), d\<lparr>calls := Suc (calls d)\<rparr>)"
    and "prepare d = (Inr (), d\<lparr>calls := Suc (calls d)\<rparr>)"
  using assms
  by (simp_all add: select_content_def select_tags_def prepare_def driver_call_healthy tags_of_def
      cong: if_cong)

lemma bind_healthy:
  assumes "healthy d"
  shows "bind (select_content i) k d =
      k (find (\<lambda>r. c_id r = i) (content d)) (d\<lparr>calls := Suc (calls d)\<rparr>)"
    and "bind (select_tags i) k2 d = k2 (tags_of d i) (d\<lparr>calls := Suc (calls d)\<rparr>)"
    and "bind prepare k3 d = k3 () (d\<lparr>calls := Suc (calls d)\<rparr>)"
  using assms by (simp_all add: bind_def select_healthy)

lemma load_children_healthy:
  "healthy d \<Longrightarrow> \<exists>d1. load_children ids acc d =
       (Inr (acc @ map (child_of d) (filter (exists_row d) ids)), d1) \<and>
     same_tables d d1 \<and> healthy d1 \<and> in_transaction d1 = in_transaction d"
proof (induction ids arbitrary: acc d)
  case Nil
  then show ?case by (simp add: ret_def)
next
  case (Cons childId rest)
  let ?d1 = "d\<lparr>calls := Suc (calls d)\<rparr>"
  have h1: "healthy ?d1" and s1: "same_tables d ?d1" using Cons.prems by simp_all
  show ?case
  proof (cases "find (\<lambda>r. c_id r = childId) (content d)")
    case None
    obtain d2 where d2: "load_children rest acc ?d1 =
        (Inr (acc @ map (child_of ?d1) (filter (exists_row ?d1) rest)), d2)"
      "same_tables ?d1 d2" "healthy d2" "in_transaction d2 = in_transaction ?d1"
      using Cons.IH[OF h1, of acc] by blast
    have "load_children (childId # rest) acc d = load_children rest acc ?d1"
      using None by (simp add: bind_healthy(1)[OF Cons.prems])
    moreover have "\<not> exists_row d childId" using None by (simp add: exists_row_def)
    moreover have "child_of ?d1 = child_of d" "exists_row ?d1 = exists_row d"
      using same_tables_reads[OF s1] by (intro ext, simp)+
    ultimately show ?thesis using d2 by (auto simp add: same_tables_def)
  next
    case (Some row)
    let ?d2 = "?d1\<lparr>calls := Suc (calls ?d1)\<rparr>"
    let ?acc = "acc @ [Aggregate row (tags_of ?d1 childId) (Resolved [])]"
    have h2: "healthy ?d2" and s2: "same_tables d ?d2" using Cons.prems by simp_all
    obtain d3 where d3: "load_children rest ?acc ?d2 =
        (Inr (?acc @ map (child_of ?d2) (filter (exists_row ?d2) rest)), d3)"
      "same_tables ?d2 d3" "healthy d3" "in_transaction d3 = in_transaction ?d2"
      using Cons.IH[OF h2, of ?acc] by blast
    have "load_children (childId # rest) acc d = load_children rest ?acc ?d2"
      using Some
      by (simp add: bind_healthy(1)[OF Cons.prems] bind_healthy(2)[OF h1])
    moreover have "exists_row d childId" using Some by (simp add: exists_row_def)
    moreover have "child_of d childId = Aggregate row (tags_of ?d1 childId) (Resolved [])"
      using Some by (simp add: child_of_def tags_of_def cong: if_cong)
    moreover have "child_of ?d2 = child_of d" "exists_row ?d2 = exists_row d"
      using same_tables_reads[OF s2] by (intro ext, simp)+
    ultimately show ?thesis using d3 by (auto simp add: same_tables_def)
  qed
qed

lemma parse_children_healthy:
  assumes "healthy d" "json_parse env raw = IdArray ids" "ids \<noteq> []"
  shows "\<exists>d1. parse_children env raw d =
       (Inr (Resolved (map (child_of d) (filter (exists_row d) ids))), d1) \<and>
     same_tables d d1 \<and> healthy d1 \<and> in_transaction d1 = in_transaction d"
proof -
  let ?d1 = "d\<lparr>calls := Suc (calls d)\<rparr>"
  let ?d2 = "?d1\<lparr>calls := Suc (calls ?d1)\<rparr>"
  have h1: "healthy ?d1" and h2: "healthy ?d2" and s2: "same_tables d ?d2"
    using assms(1) by simp_all
  obtain d3 where d3: "load_children ids [] ?d2 =
      (Inr ([] @ map (child_of ?d2) (filter (exists_row ?d2) ids)), d3)"
    "same_tables ?d2 d3" "healthy d3" "in_transaction d3 = in_transaction ?d2"
    using load_children_healthy[OF h2, of ids "[]"] by blast
  have "child_of ?d2 = child_of d" "exists_row ?d2 = exists_row d"
    using same_tables_reads[OF s2] by (intro ext, simp)+
  moreover have "parse_children env raw d =
      bind (load_children ids []) (\<lambda>childrenContent. ret (Resolved childrenContent)) ?d2"
    using assms(2,3)
    by (simp add: parse_children_def bind_healthy(3)[OF assms(1)] bind_healthy(3)[OF h1])
  ultimately show ?thesis
    using d3 by (auto simp add: bind_def ret_def same_tables_def)
qed

lemma resolve_children_collection:
  assumes "healthy d" "c_type row = ''collection''" "c_children row = Some raw"
    "json_parse env raw = IdArray ids" "ids \<noteq> []"
  shows "\<exists>d1. resolve_children env row d =
       (Inr (Resolved (map (child_of d) (filter (exists_row d) ids))), d1) \<and>
     same_tables d d1 \<and> healthy d1 \<and> in_transaction d1 = in_transaction d"
  using parse_children_healthy[OF assms(1,4,5)] assms(2,3)
  by (auto simp add: resolve_children_def)

lemma exec_healthy:
  assumes "healthy d"
  shows "\<not> in_transaction d \<Longrightarrow>
      exec_begin d = (Inr (), d\<lparr>calls := Suc (calls d), in_transaction := True\<rparr>)"
    and "in_transaction d \<Longrightarrow>
      exec_commit d = (Inr (), d\<lparr>calls := Suc (calls d), in_transaction := False\<rparr>)"
    and "in_transaction d \<Longrightarrow>
      exec_rollback d = (Inr (), d\<lparr>calls := Suc (calls d), in_transaction := False\<rparr>)"
  using assms
  by (simp_all add: exec_begin_def exec_commit_def exec_rollback_def driver_call_healthy)

lemma bind_exec_begin:
  "healthy d \<Longrightarrow> \<not> in_transaction d \<Longrightarrow>
   bind exec_begin k d = k () (d\<lparr>calls := Suc (calls d), in_transaction := True\<rparr>)"
  by (simp add: bind_def exec_healthy)

lemma getContentById_try_collection:
  assumes h: "healthy d" and nt: "\<not> in_transaction d"
    and row: "find (\<lambda>r. c_id r = i) (content d) = Some row"
    and coll: "c_type row = ''collection''" "c_children row = Some raw"
      "json_parse env raw = IdArray ids" "ids \<noteq> []"
  shows "\<exists>d1. getContentById_try env i d =
     (Inr (Some (Aggregate row (tags_of d i)
        (Resolved (map (child_of d) (filter (exists_row d) ids))))), d1)"
proof -
  let ?d1 = "d\<lparr>calls := Suc (calls d), in_transaction := True\<rparr>"
  let ?d2 = "?d1\<lparr>calls := Suc (calls ?d1)\<rparr>"
  let ?d3 = "?d2\<lparr>calls := Suc (calls ?d2)\<rparr>"
  let ?d4 = "?d3\<lparr>calls := Suc (calls ?d3)\<rparr>"
  let ?d5 = "?d4\<lparr>calls := Suc (calls ?d4)\<rparr>"
  have hs: "healthy ?d1" "healthy ?d2" "healthy ?d3" "healthy ?d4" "healthy ?d5"
    using h by simp_all
  have s5: "same_tables d ?d5" by simp
  obtain d6 where d6: "resolve_children env row ?d5 =
      (Inr (Resolved (map (child_of ?d5) (filter (exists_row ?d5) ids))), d6)"
    "healthy d6" "in_transaction d6 = in_transaction ?d5"
    using resolve_children_collection[OF hs(5) coll] by blast
  have eqs: "child_of ?d5 = child_of d" "exists_row ?d5 = exists_row d"
    using same_tables_reads[OF s5] by (intro ext, simp)+
  have t: "tags_of ?d4 i = tags_of d i"
    by (simp add: tags_of_def cong: if_cong)
  have r: "find (\<lambda>r. c_id r = i) (content ?d2) = Some row" using row by simp
  have "getContentById_try env i d =
      bind (resolve_children env row) (\<lambda>children.
        bind exec_commit (\<lambda>_. ret (Some (Aggregate row (tags_of d i) children)))) ?d5"
    unfolding getContentById_try_def
    apply (subst bind_exec_begin[OF h nt])
    apply (subst bind_healthy(3)[OF hs(1)])
    apply (subst bind_healthy(1)[OF hs(2)])
    apply (simp only: r option.case)
    apply (subst bind_healthy(3)[OF hs(3)])
    apply (subst bind_healthy(2)[OF hs(4)])
    apply (simp only: t)
    done
  moreover have "exec_commit d6 =
      (Inr (), d6\<lparr>calls := Suc (calls d6), in_transaction := False\<rparr>)"
    using exec_healthy(2)[OF d6(2)] d6(3) by simp
  ultimately show ?thesis
    using d6(1) eqs by (simp add: bind_def ret_def)
qed

text \<open>
  C6 (amended). In a store without failures and outside a transaction, for a row of type
  \<^verbatim>\<open>collection\<close> whose stored \<^verbatim>\<open>children\<close> parses to a non-empty array of \<open>N\<close> identifiers,
  \<^verbatim>\<open>getContentById\<close> returns the row with its tags and with a list of child aggregates: one
  for each identifier that still resolves to a row, in the order of the stored list (so
  \<open>M \<le> N\<close> of them, the identifiers that do not resolve being dropped); each child carries
  the tags of its own identifier and an empty children list.
\<close>

theorem collection_children_resolved:
  assumes "healthy d" and "\<not> in_transaction d" and "i \<noteq> []"
    and "find (\<lambda>r. c_id r = i) (content d) = Some row"
    and "c_type row = ''collection''" and "c_children row = Some raw"
    and "json_parse env raw = IdArray ids" and "ids \<noteq> []"
  shows "\<exists>kids. fst (getContentById env i d) =
       Some (Aggregate row (tags_of d i) (Resolved kids)) \<and>
     kids = map (child_of d) (filter (exists_row d) ids) \<and>
     length kids = length (filter (exists_row d) ids) \<and>
     map (\<lambda>k. c_id (a_row k)) kids = filter (exists_row d) ids \<and>
     (\<forall>k \<in> set kids. a_children k = Resolved [] \<and> a_tags k = tags_of d (c_id (a_row k)))"
proof -
  obtain d1 where "getContentById_try env i d =
     (Inr (Some (Aggregate row (tags_of d i)
        (Resolved (map (child_of d) (filter (exists_row d) ids))))), d1)"
    using getContentById_try_collection[OF assms(1,2,4-8)] by blast
  then have res: "fst (getContentById env i d) = Some (Aggregate row (tags_of d i)
        (Resolved (map (child_of d) (filter (exists_row d) ids))))"
    using assms(3) by (simp add: getContentById_def)
  have idc: "\<And>j. exists_row d j \<Longrightarrow> c_id (a_row (child_of d j)) = j"
  proof -
    fix j assume "exists_row d j"
    then obtain r where r: "find (\<lambda>r. c_id r = j) (content d) = Some r"
      by (auto simp add: exists_row_def)
    then have "c_id r = j" by (auto simp add: find_Some_iff)
    then show "c_id (a_row (child_of d j)) = j" using r by (simp add: child_of_def)
  qed
  have ids: "map (\<lambda>k. c_id (a_row k)) (map (child_of d) (filter (exists_row d) ids)) =
      filter (exists_row d) ids"
    using idc by (induction ids) auto
  have each: "\<forall>k \<in> set (map (child_of d) (filter (exists_row d) ids)).
      a_children k = Resolved [] \<and> a_tags k = tags_of d (c_id (a_row k))"
    using idc by (auto simp add: child_of_def)
  show ?thesis using res ids each by simp
qed

lemma ex_reads [simp]:
  "healthy ex_db" "\<not> in_transaction ex_db"
  by (simp_all add: healthy_def ex_db_def)

text \<open>The collection \<^verbatim>\<open>c1\<close> of the examples: of its children \<^verbatim>\<open>a\<close>, \<^verbatim>\<open>x\<close>, \<^verbatim>\<open>b\<close> the second is gone.\<close>

theorem collection_children_resolved_witness:
  "healthy ex_db \<and> \<not> in_transaction ex_db \<and> ''c1'' \<noteq> '''' \<and>
   find (\<lambda>r. c_id r = ''c1'') (content ex_db) = Some (ex_row ''c1'' ''collection'' (Some axb_json)) \<and>
   json_parse ex_env axb_json = IdArray [''a'', ''x'', ''b''] \<and>
   fst (getContentById ex_env ''c1'' ex_db) =
     Some (Aggregate (ex_row ''c1'' ''collection'' (Some axb_json)) [ex_tag ''t1'' ''svelte'']
       (Resolved [Aggregate (ex_row ''a'' ''article'' None) [ex_tag ''t1'' ''svelte''] (Resolved []),
                  Aggregate (ex_row ''b'' ''article'' None) [ex_tag ''t2'' ''kit''] (Resolved [])]))"
proof -
  have row: "find (\<lambda>r. c_id r = ''c1'') (content ex_db) =
      Some (ex_row ''c1'' ''collection'' (Some axb_json))"
    by (simp add: ex_db_def ex_row_def)
  have ty: "c_type (ex_row ''c1'' ''collection'' (Some axb_json)) = ''collection''"
    and ch: "c_children (ex_row ''c1'' ''collection'' (Some axb_json)) = Some axb_json"
    by (simp_all add: ex_row_def)
  have js: "json_parse ex_env axb_json = IdArray [''a'', ''x'', ''b'']"
    by (simp add: ex_env_def)
  have kids: "map (child_of ex_db) (filter (exists_row ex_db) [''a'', ''x'', ''b'']) =
      [Aggregate (ex_row ''a'' ''article'' None) [ex_tag ''t1'' ''svelte''] (Resolved []),
       Aggregate (ex_row ''b'' ''article'' None) [ex_tag ''t2'' ''kit''] (Resolved [])]"
    by (simp add: child_of_def exists_row_def tags_of_def ex_db_def ex_row_def ex_tag_def)
  have tg: "tags_of ex_db ''c1'' = [ex_tag ''t1'' ''svelte'']"
    by (simp add: tags_of_def ex_db_def ex_tag_def)
  show ?thesis
    using collection_children_resolved[OF ex_reads(1) ex_reads(2) _ row ty ch js]
      row js kids tg
    by simp
qed

text \<open>
  C6 as stated fails for \<open>N = 0\<close>: the guard \<^verbatim>\<open>childrenIds.length > 0\<close> skips the assignment,
  and the aggregate of the empty collection \<^verbatim>\<open>c0\<close> carries the stored text \<^verbatim>\<open>[]\<close> as its
  \<^verbatim>\<open>children\<close>, not an empty list of aggregates.
\<close>

theorem empty_collection_counterexample:
  "find (\<lambda>r. c_id r = ''c0'') (content ex_db) = Some (ex_row ''c0'' ''collection'' (Some ''[]'')) \<and>
   json_parse ex_env ''[]'' = IdArray [] \<and>
   fst (getContentById ex_env ''c0'' ex_db) =
     Some (Aggregate (ex_row ''c0'' ''collection'' (Some ''[]'')) [] (Stored (Some ''[]'')))"
  by (simp add: getContentById_def getContentById_try_def bind_def exec_begin_def
      exec_commit_def prepare_def select_content_def select_tags_def driver_call_def
      resolve_children_def parse_children_def ret_def ex_db_def ex_env_def ex_row_def
      tags_of_def axb_json_def dq_def Let_def)

subsection \<open>The search short-circuit\<close>

lemma search_where_hd:
  assumes "truthy_str (search_trimmed f)"
  shows "hd (whereConditions (list_builder f ids)) = ''c.id IN ('' @ placeholders ids @ '')''"
    and "whereConditions (list_builder f ids) \<noteq> []"
    and "take (length ids) (params (count_builder f ids)) = map SText ids"
    and "take (length ids) (params (list_builder f ids)) = map SText ids"
  using assms by (simp_all add: list_where list_params count_params)

text \<open>
  C5. When the search field is set and not blank, the trimmed text goes to the Search
  Adapter. If it returns no candidate, \<^verbatim>\<open>getFilteredContent\<close> returns the empty list and
  \<^verbatim>\<open>getFilteredContentCount\<close> returns 0, and the store is exactly as before: no driver call
  was made. Otherwise the query built for the candidates is run, and in both builders its
  first condition is \<^verbatim>\<open>c.id IN (?,...,?)\<close> with one placeholder per candidate, the
  candidates are the first bound parameters, and the conditions are in the text behind
  \<^verbatim>\<open>WHERE\<close>.
\<close>

theorem search_short_circuit:
  assumes "f_search f = Some s" and "trim s \<noteq> []"
  shows "(search env (trim s) = [] \<longrightarrow>
            getFilteredContent env f d = (Inr [], d) \<and>
            getFilteredContentCount env f d = (Inr 0, d))
       \<and> (search env (trim s) \<noteq> [] \<longrightarrow>
            getFilteredContent env f d =
              run_list_query env (list_builder f (search env (trim s))) d \<and>
            getFilteredContentCount env f d =
              run_count_query env (count_builder f (search env (trim s))) d)
       \<and> (\<forall>B ids. B = list_builder \<or> B = count_builder \<longrightarrow>
            hd (whereConditions (B f ids)) = ''c.id IN ('' @ placeholders ids @ '')'' \<and>
            take (length ids) (params (B f ids)) = map SText ids \<and>
            sublist ('' WHERE '' @ join '' AND '' (whereConditions (B f ids))) (query (B f ids)))"
proof -
  have t: "truthy_str (search_trimmed f)" and st: "search_trimmed f = Some (trim s)"
    using assms by (simp_all add: truthy_str_def search_trimmed_def)
  have a: "search env (trim s) = [] \<longrightarrow>
            getFilteredContent env f d = (Inr [], d) \<and>
            getFilteredContentCount env f d = (Inr 0, d)"
    using t st assms(2) by (simp add: getFilteredContent_def getFilteredContentCount_def)
  have b: "search env (trim s) \<noteq> [] \<longrightarrow>
            getFilteredContent env f d =
              run_list_query env (list_builder f (search env (trim s))) d \<and>
            getFilteredContentCount env f d =
              run_count_query env (count_builder f (search env (trim s))) d"
    using t st assms(2) by (simp add: getFilteredContent_def getFilteredContentCount_def)
  have c: "\<forall>B ids. B = list_builder \<or> B = count_builder \<longrightarrow>
            hd (whereConditions (B f ids)) = ''c.id IN ('' @ placeholders ids @ '')'' \<and>
            take (length ids) (params (B f ids)) = map SText ids \<and>
            sublist ('' WHERE '' @ join '' AND '' (whereConditions (B f ids))) (query (B f ids))"
    using search_where_hd[OF t] where_in_list_query[of f] where_in_count_query[of f]
      count_where[of f]
    by (metis (no_types, lifting))
  show ?thesis using a b c by blast
qed

text \<open>A search without candidates and a search with the candidate \<^verbatim>\<open>a\<close>, on the store of the examples.\<close>

lemma trim_examples: "trim ''  nothing '' = ''nothing''" "trim ''  svelte '' = ''svelte''"
  by (simp_all add: trim_def is_js_space_def)

theorem search_short_circuit_witness:
  "f_search (no_filters\<lparr>f_search := Some ''  nothing ''\<rparr>) = Some ''  nothing '' \<and>
   trim ''  nothing '' = ''nothing'' \<and> search ex_env ''nothing'' = [] \<and>
   getFilteredContent ex_env (no_filters\<lparr>f_search := Some ''  nothing ''\<rparr>) ex_db = (Inr [], ex_db) \<and>
   getFilteredContentCount ex_env (no_filters\<lparr>f_search := Some ''  nothing ''\<rparr>) ex_db = (Inr 0, ex_db) \<and>
   trim ''  svelte '' = ''svelte'' \<and> search ex_env ''svelte'' = [''a''] \<and>
   getFilteredContentCount ex_env (no_filters\<lparr>f_search := Some ''  svelte ''\<rparr>) ex_db =
     run_count_query ex_env (count_builder (no_filters\<lparr>f_search := Some ''  svelte ''\<rparr>) [''a'']) ex_db \<and>
   hd (whereConditions (count_builder (no_filters\<lparr>f_search := Some ''  svelte ''\<rparr>) [''a''])) =
     ''c.id IN ('' @ placeholders [''a''] @ '')'' \<and>
   placeholders [''a''] = ''?'' \<and>
   take (length [''a'']) (params (count_builder (no_filters\<lparr>f_search := Some ''  svelte ''\<rparr>) [''a''])) =
     map SText [''a'']"
proof -
  have s1: "f_search (no_filters\<lparr>f_search := Some ''  nothing ''\<rparr>) = Some ''  nothing ''"
    and s2: "f_search (no_filters\<lparr>f_search := Some ''  svelte ''\<rparr>) = Some ''  svelte ''"
    by simp_all
  have n1: "trim ''  nothing '' \<noteq> []" and n2: "trim ''  svelte '' \<noteq> []"
    by (simp_all add: trim_examples)
  have e1: "search ex_env (trim ''  nothing '') = []"
    and e2: "search ex_env (trim ''  svelte '') \<noteq> []"
    and e3: "search ex_env (trim ''  svelte '') = [''a'']"
    by (simp_all add: ex_env_def trim_examples)
  have a: "getFilteredContent ex_env (no_filters\<lparr>f_search := Some ''  nothing ''\<rparr>) ex_db = (Inr [], ex_db)"
    "getFilteredContentCount ex_env (no_filters\<lparr>f_search := Some ''  nothing ''\<rparr>) ex_db = (Inr 0, ex_db)"
    using search_short_circuit[OF s1 n1, of ex_env ex_db] e1 by blast+
  have b: "getFilteredContentCount ex_env (no_filters\<lparr>f_search := Some ''  svelte ''\<rparr>) ex_db =
     run_count_query ex_env (count_builder (no_filters\<lparr>f_search := Some ''  svelte ''\<rparr>)
       (search ex_env (trim ''  svelte ''))) ex_db"
    using search_short_circuit[OF s2 n2, of ex_env ex_db] e2 by blast
  have c: "hd (whereConditions (count_builder (no_filters\<lparr>f_search := Some ''  svelte ''\<rparr>) [''a''])) =
     ''c.id IN ('' @ placeholders [''a''] @ '')''"
    "take (length [''a'']) (params (count_builder (no_filters\<lparr>f_search := Some ''  svelte ''\<rparr>) [''a''])) =
     map SText [''a'']"
    using search_short_circuit[OF s2 n2, of ex_env ex_db] by blast+
  have p: "placeholders [''a''] = ''?''" by (simp add: placeholders_def)
  have e: "search ex_env ''nothing'' = []" "search ex_env ''svelte'' = [''a'']"
    by (simp_all add: ex_env_def)
  show ?thesis
    using s1 a b c p e trim_examples unfolding e3 by (intro conjI) assumption+
qed

subsection \<open>Hydration of the identifiers the list query returns\<close>

lemma select_content_id:
  "select_content i d = (Inr (Some row), d1) \<Longrightarrow> c_id row = i"
  by (auto simp add: select_content_def driver_call_def Let_def find_Some_iff split: if_splits)

lemma bindE:
  assumes "bind m k d = (Inr y, d2)"
  obtains x d1 where "m d = (Inr x, d1)" "k x d1 = (Inr y, d2)"
  using assms by (auto simp add: bind_def split: prod.splits sum.splits)

lemma getContentById_try_id:
  assumes "getContentById_try env i d = (Inr (Some a), d1)"
  shows "c_id (a_row a) = i"
  using assms unfolding getContentById_try_def
  apply (auto elim!: bindE split: option.splits simp add: ret_def)
  apply (drule select_content_id)
  apply simp
  done

lemma getContentById_id:
  assumes "fst (getContentById env i d) = Some a"
  shows "c_id (a_row a) = i"
proof (cases "i = []")
  case True
  then show ?thesis using assms by (simp add: getContentById_def)
next
  case False
  obtain r d1 where t: "getContentById_try env i d = (r, d1)" by (cases "getContentById_try env i d")
  have "r = Inr (Some a)"
    using assms False t by (cases r) (simp_all add: getContentById_def)
  then show ?thesis using getContentById_try_id[of env i d a d1] t by simp
qed

text \<open>The results that are not \<^verbatim>\<open>null\<close>, in their order.\<close>

lemma not_null_simps [simp]:
  "not_null [] = []"
  "not_null (None # hs) = not_null hs"
  "not_null (Some a # hs) = a # not_null hs"
  by (simp_all add: not_null_def)

lemma map_Some_not_null: "map Some (not_null hs) = filter (\<lambda>h. h \<noteq> None) hs"
  by (induction hs) auto

lemma length_not_null: "length (not_null hs) \<le> length hs"
  by (simp add: not_null_def)

text \<open>On every store, the identifiers of the results are a subsequence of the identifiers asked for.\<close>

lemma map_getContentById_order:
  "map_getContentById env ids d = (hs, d1) \<Longrightarrow>
     length hs = length ids \<and> subseq (map (\<lambda>a. c_id (a_row a)) (not_null hs)) ids"
proof (induction ids arbitrary: d hs d1)
  case Nil
  then show ?case by simp
next
  case (Cons i ids)
  obtain r d2 where g: "getContentById env i d = (r, d2)" by (cases "getContentById env i d")
  obtain rs d3 where m: "map_getContentById env ids d2 = (rs, d3)"
    by (cases "map_getContentById env ids d2")
  have hs: "hs = r # rs" using Cons.prems g m by simp
  have ih: "length rs = length ids" "subseq (map (\<lambda>a. c_id (a_row a)) (not_null rs)) ids"
    using Cons.IH[OF m] by simp_all
  have sub: "subseq (map (\<lambda>a. c_id (a_row a)) (not_null hs)) (i # ids)"
  proof (cases r)
    case None
    then show ?thesis using hs ih(2) by (simp add: list_emb_Cons)
  next
    case (Some a)
    then have "c_id (a_row a) = i" using getContentById_id[of env i d a] g by simp
    then show ?thesis using hs ih(2) Some by (simp add: subseq_Cons2)
  qed
  show ?case using hs ih(1) sub by simp
qed

text \<open>
  The end of \<^verbatim>\<open>getFilteredContent\<close> when preparing and running the query do not fail: the
  identifiers are hydrated one after the other, from the store as the query left it.
\<close>

lemma run_list_query_exact:
  assumes "\<not> faults d (calls d)" "\<not> faults d (Suc (calls d))"
  shows "run_list_query env b d =
     (Inr (not_null (fst (map_getContentById env
        (select_ids env (query b) (params b) (d\<lparr>calls := Suc (Suc (calls d))\<rparr>))
        (d\<lparr>calls := Suc (Suc (calls d))\<rparr>)))),
      snd (map_getContentById env
        (select_ids env (query b) (params b) (d\<lparr>calls := Suc (Suc (calls d))\<rparr>))
        (d\<lparr>calls := Suc (Suc (calls d))\<rparr>)))"
  using assms
  by (simp add: run_list_query_def bind_def prepare_def driver_call_def Let_def
      split: prod.splits)

lemma run_list_query_fails:
  assumes "faults d (calls d) \<or> faults d (Suc (calls d))"
  shows "fst (run_list_query env b d) = Inl StoreError"
  using assms
  by (auto simp add: run_list_query_def bind_def prepare_def driver_call_def Let_def)

text \<open>
  On a store without failures and outside a transaction, \<^verbatim>\<open>getContentById\<close> returns what the
  tables give for the identifier, and leaves the tables and the transaction state as they
  were.
\<close>

lemma same_tables_trans: "same_tables d d1 \<Longrightarrow> same_tables d1 d2 \<Longrightarrow> same_tables d d2"
  by (simp add: same_tables_def)

lemma children_of_same_tables:
  assumes "same_tables d d1"
  shows "children_of env d1 row = children_of env d row"
proof -
  have "child_of d1 = child_of d" "exists_row d1 = exists_row d"
    using same_tables_reads[OF assms] by (intro ext, simp)+
  then show ?thesis
    by (simp add: children_of_def split: option.splits parsed.splits)
qed

lemma hydrated_same_tables:
  assumes "same_tables d d1"
  shows "hydrated env d1 = hydrated env d"
proof
  fix i
  show "hydrated env d1 i = hydrated env d i"
    using same_tables_reads(1,4)[OF assms, of i] children_of_same_tables[OF assms, of env]
    by (simp add: hydrated_def split: option.splits)
qed

lemma resolve_children_healthy:
  assumes h: "healthy d"
  shows "\<exists>d1. resolve_children env row d = (Inr (children_of env d row), d1) \<and>
     same_tables d d1 \<and> healthy d1 \<and> in_transaction d1 = in_transaction d"
proof (cases "c_children row")
  case None
  then show ?thesis using h by (simp add: resolve_children_def children_of_def)
next
  case (Some raw)
  show ?thesis
  proof (cases "c_type row = ''collection''")
    case False
    then show ?thesis using h Some by (simp add: resolve_children_def children_of_def)
  next
    case True
    show ?thesis
    proof (cases "json_parse env raw")
      case ParseError
      then show ?thesis
        using h Some True
        by (simp add: resolve_children_def children_of_def parse_children_def throw_def)
    next
      case NotArray
      then show ?thesis
        using h Some True
        by (simp add: resolve_children_def children_of_def parse_children_def ret_def)
    next
      case (IdArray ids)
      show ?thesis
      proof (cases "ids = []")
        case True
        then show ?thesis
          using h Some \<open>c_type row = ''collection''\<close> IdArray
          by (simp add: resolve_children_def children_of_def parse_children_def ret_def)
      next
        case False
        have c: "children_of env d row = Resolved (map (child_of d) (filter (exists_row d) ids))"
          using Some True IdArray False by (simp add: children_of_def)
        show ?thesis
          using resolve_children_collection[OF h True Some IdArray False] c by simp
      qed
    qed
  qed
qed

lemma getContentById_try_missing:
  assumes h: "healthy d" and nt: "\<not> in_transaction d"
    and row: "find (\<lambda>r. c_id r = i) (content d) = None"
  shows "getContentById_try env i d =
     (Inr None, d\<lparr>calls := Suc (Suc (Suc (Suc (calls d)))), in_transaction := False\<rparr>)"
proof -
  let ?d1 = "d\<lparr>calls := Suc (calls d), in_transaction := True\<rparr>"
  let ?d2 = "?d1\<lparr>calls := Suc (calls ?d1)\<rparr>"
  let ?d3 = "?d2\<lparr>calls := Suc (calls ?d2)\<rparr>"
  have hs: "healthy ?d1" "healthy ?d2" "healthy ?d3" using h by simp_all
  have r: "find (\<lambda>r. c_id r = i) (content ?d2) = None" using row by simp
  have "getContentById_try env i d = bind exec_rollback (\<lambda>_. ret None) ?d3"
    unfolding getContentById_try_def
    apply (subst bind_exec_begin[OF h nt])
    apply (subst bind_healthy(3)[OF hs(1)])
    apply (subst bind_healthy(1)[OF hs(2)])
    apply (simp only: r option.case)
    done
  moreover have "exec_rollback ?d3 =
      (Inr (), ?d3\<lparr>calls := Suc (calls ?d3), in_transaction := False\<rparr>)"
    by (rule exec_healthy(3)[OF hs(3)]) simp
  ultimately show ?thesis by (simp add: bind_def ret_def)
qed

lemma getContentById_try_found:
  assumes h: "healthy d" and nt: "\<not> in_transaction d"
    and row: "find (\<lambda>r. c_id r = i) (content d) = Some row"
  shows "\<exists>d1. getContentById_try env i d =
       (Inr (Some (Aggregate row (tags_of d i) (children_of env d row))), d1) \<and>
     same_tables d d1 \<and> healthy d1 \<and> \<not> in_transaction d1"
proof -
  let ?d1 = "d\<lparr>calls := Suc (calls d), in_transaction := True\<rparr>"
  let ?d2 = "?d1\<lparr>calls := Suc (calls ?d1)\<rparr>"
  let ?d3 = "?d2\<lparr>calls := Suc (calls ?d2)\<rparr>"
  let ?d4 = "?d3\<lparr>calls := Suc (calls ?d3)\<rparr>"
  let ?d5 = "?d4\<lparr>calls := Suc (calls ?d4)\<rparr>"
  have hs: "healthy ?d1" "healthy ?d2" "healthy ?d3" "healthy ?d4" "healthy ?d5"
    using h by simp_all
  have s5: "same_tables d ?d5" by simp
  obtain d6 where d6: "resolve_children env row ?d5 = (Inr (children_of env ?d5 row), d6)"
    "same_tables ?d5 d6" "healthy d6" "in_transaction d6 = in_transaction ?d5"
    using resolve_children_healthy[OF hs(5), of env row] by blast
  have ch: "children_of env ?d5 row = children_of env d row"
    by (rule children_of_same_tables[OF s5])
  have t: "tags_of ?d4 i = tags_of d i"
    by (simp add: tags_of_def cong: if_cong)
  have r: "find (\<lambda>r. c_id r = i) (content ?d2) = Some row" using row by simp
  have run: "getContentById_try env i d =
      bind (resolve_children env row) (\<lambda>children.
        bind exec_commit (\<lambda>_. ret (Some (Aggregate row (tags_of d i) children)))) ?d5"
    unfolding getContentById_try_def
    apply (subst bind_exec_begin[OF h nt])
    apply (subst bind_healthy(3)[OF hs(1)])
    apply (subst bind_healthy(1)[OF hs(2)])
    apply (simp only: r option.case)
    apply (subst bind_healthy(3)[OF hs(3)])
    apply (subst bind_healthy(2)[OF hs(4)])
    apply (simp only: t)
    done
  have cm: "exec_commit d6 = (Inr (), d6\<lparr>calls := Suc (calls d6), in_transaction := False\<rparr>)"
    using exec_healthy(2)[OF d6(3)] d6(4) by simp
  let ?d7 = "d6\<lparr>calls := Suc (calls d6), in_transaction := False\<rparr>"
  have res: "getContentById_try env i d =
      (Inr (Some (Aggregate row (tags_of d i) (children_of env d row))), ?d7)"
    using run d6(1) ch cm by (simp add: bind_def ret_def)
  have "same_tables d d6" using same_tables_trans[OF s5 d6(2)] .
  then have "same_tables d ?d7" "healthy ?d7" "\<not> in_transaction ?d7"
    using d6(3) by simp_all
  then show ?thesis using res by blast
qed

lemma getContentById_healthy:
  assumes h: "healthy d" and nt: "\<not> in_transaction d"
  shows "\<exists>d1. getContentById env i d = (hydrated env d i, d1) \<and>
     same_tables d d1 \<and> healthy d1 \<and> \<not> in_transaction d1"
proof (cases "i = []")
  case True
  then show ?thesis using h nt by (simp add: getContentById_def hydrated_def)
next
  case ne: False
  show ?thesis
  proof (cases "find (\<lambda>r. c_id r = i) (content d)")
    case None
    have "getContentById env i d =
        (None, d\<lparr>calls := Suc (Suc (Suc (Suc (calls d)))), in_transaction := False\<rparr>)"
      using ne getContentById_try_missing[OF h nt None, of env]
      by (simp add: getContentById_def)
    moreover have "hydrated env d i = None" using ne None by (simp add: hydrated_def)
    ultimately show ?thesis using h by simp
  next
    case (Some row)
    obtain d1 where d1: "getContentById_try env i d =
       (Inr (Some (Aggregate row (tags_of d i) (children_of env d row))), d1)"
      "same_tables d d1" "healthy d1" "\<not> in_transaction d1"
      using getContentById_try_found[OF h nt Some, of env] by blast
    have "getContentById env i d =
        (Some (Aggregate row (tags_of d i) (children_of env d row)), d1)"
      using ne d1(1) by (simp add: getContentById_def)
    moreover have "hydrated env d i = Some (Aggregate row (tags_of d i) (children_of env d row))"
      using ne Some by (simp add: hydrated_def)
    ultimately show ?thesis using d1(2-4) by simp
  qed
qed

lemma map_getContentById_healthy:
  "healthy d \<Longrightarrow> \<not> in_transaction d \<Longrightarrow>
   \<exists>d1. map_getContentById env ids d = (map (hydrated env d) ids, d1) \<and>
     same_tables d d1 \<and> healthy d1 \<and> \<not> in_transaction d1"
proof (induction ids arbitrary: d)
  case Nil
  then show ?case by simp
next
  case (Cons i ids)
  obtain d1 where d1: "getContentById env i d = (hydrated env d i, d1)"
    "same_tables d d1" "healthy d1" "\<not> in_transaction d1"
    using getContentById_healthy[OF Cons.prems, of env i] by blast
  obtain d2 where d2: "map_getContentById env ids d1 = (map (hydrated env d1) ids, d2)"
    "same_tables d1 d2" "healthy d2" "\<not> in_transaction d2"
    using Cons.IH[OF d1(3,4)] by blast
  have "hydrated env d1 = hydrated env d" by (rule hydrated_same_tables[OF d1(2)])
  then have "map_getContentById env (i # ids) d = (map (hydrated env d) (i # ids), d2)"
    using d1(1) d2(1) by simp
  then show ?case using same_tables_trans[OF d1(2) d2(2)] d2(3,4) by blast
qed

lemma hydrated_id: "hydrated env d i = Some a \<Longrightarrow> c_id (a_row a) = i"
  by (auto simp add: hydrated_def find_Some_iff split: if_splits option.splits)

lemma hydrated_None: "hydrated env d i = None \<longleftrightarrow> \<not> (i \<noteq> [] \<and> exists_row d i)"
  by (auto simp add: hydrated_def exists_row_def split: option.splits)

lemma hydrated_ids:
  "map (\<lambda>a. c_id (a_row a)) (not_null (map (hydrated env d) ids)) =
     filter (\<lambda>i. i \<noteq> [] \<and> exists_row d i) ids"
proof (induction ids)
  case Nil
  then show ?case by simp
next
  case (Cons i ids)
  show ?case
  proof (cases "hydrated env d i")
    case None
    then show ?thesis using Cons.IH hydrated_None[of env d i] by simp
  next
    case (Some a)
    then have "i \<noteq> [] \<and> exists_row d i" using hydrated_None[of env d i] by simp
    then show ?thesis using Cons.IH Some hydrated_id[OF Some] by simp
  qed
qed

lemma getFilteredContent_run:
  assumes "contentIds = (case search_trimmed f of
      Some q \<Rightarrow> if q \<noteq> [] then search env q else [] | None \<Rightarrow> [])"
  shows "truthy_str (search_trimmed f) \<and> contentIds = [] \<Longrightarrow>
      getFilteredContent env f d = (Inr [], d)"
    and "\<not> (truthy_str (search_trimmed f) \<and> contentIds = []) \<Longrightarrow>
      getFilteredContent env f d = run_list_query env (list_builder f contentIds) d"
  using assms by (auto simp add: getFilteredContent_def Let_def)

text \<open>
  C10. Let \<open>contentIds\<close> be the candidates of the search (none without a search). After the
  search short-circuit the list is empty. Otherwise the built query is prepared and run
  (driver calls number \<open>calls d\<close> and the next one; when one of them fails, the failure
  propagates), it returns the identifiers \<open>ids\<close>, and on every store the returned list is
  exactly the results of \<^verbatim>\<open>getContentById\<close> for \<open>ids\<close>, taken one after the other from the
  store as the query left it, without the \<^verbatim>\<open>null\<close> ones and in their order: nothing else is
  dropped, the list is at most as long as \<open>ids\<close>, and the identifiers of its elements are a
  subsequence of \<open>ids\<close>. On a store without failures and outside a transaction each result
  is what the tables of the call give for the identifier (\<open>hydrated\<close>: the row, its tags,
  its children resolved as \<^verbatim>\<open>getContentById\<close> resolves them); exactly the empty identifier and
  the identifiers without a row are dropped, and the tables are left as they were.
\<close>

theorem filtered_content_hydrated:
  assumes "contentIds = (case search_trimmed f of
      Some q \<Rightarrow> if q \<noteq> [] then search env q else [] | None \<Rightarrow> [])"
    and "d0 = d\<lparr>calls := Suc (Suc (calls d))\<rparr>"
    and "ids = select_ids env (query (list_builder f contentIds))
                 (params (list_builder f contentIds)) d0"
  shows "(truthy_str (search_trimmed f) \<and> contentIds = [] \<longrightarrow>
            getFilteredContent env f d = (Inr [], d))
       \<and> (\<not> (truthy_str (search_trimmed f) \<and> contentIds = []) \<longrightarrow>
            (faults d (calls d) \<or> faults d (Suc (calls d)) \<longrightarrow>
               fst (getFilteredContent env f d) = Inl StoreError)
          \<and> (\<not> faults d (calls d) \<and> \<not> faults d (Suc (calls d)) \<longrightarrow>
               (\<exists>rs. getFilteredContent env f d = (Inr rs, snd (map_getContentById env ids d0)) \<and>
                  map Some rs = filter (\<lambda>h. h \<noteq> None) (fst (map_getContentById env ids d0)) \<and>
                  length rs \<le> length ids \<and>
                  subseq (map (\<lambda>a. c_id (a_row a)) rs) ids))
          \<and> (healthy d \<and> \<not> in_transaction d \<longrightarrow>
               (\<exists>rs. fst (getFilteredContent env f d) = Inr rs \<and>
                  map Some rs = filter (\<lambda>h. h \<noteq> None) (map (hydrated env d) ids) \<and>
                  map (\<lambda>a. c_id (a_row a)) rs = filter (\<lambda>i. i \<noteq> [] \<and> exists_row d i) ids \<and>
                  same_tables d (snd (getFilteredContent env f d)) \<and>
                  \<not> in_transaction (snd (getFilteredContent env f d)))))"
proof (intro conjI impI)
  assume "truthy_str (search_trimmed f) \<and> contentIds = []"
  then show "getFilteredContent env f d = (Inr [], d)"
    by (rule getFilteredContent_run(1)[OF assms(1)])
next
  assume ns: "\<not> (truthy_str (search_trimmed f) \<and> contentIds = [])"
  assume "faults d (calls d) \<or> faults d (Suc (calls d))"
  then show "fst (getFilteredContent env f d) = Inl StoreError"
    using getFilteredContent_run(2)[OF assms(1) ns, of d] run_list_query_fails by simp
next
  assume ns: "\<not> (truthy_str (search_trimmed f) \<and> contentIds = [])"
  assume "\<not> faults d (calls d) \<and> \<not> faults d (Suc (calls d))"
  then have nf: "\<not> faults d (calls d)" "\<not> faults d (Suc (calls d))" by simp_all
  obtain hs d1 where m: "map_getContentById env ids d0 = (hs, d1)"
    by (cases "map_getContentById env ids d0")
  have run: "getFilteredContent env f d = (Inr (not_null hs), d1)"
    using getFilteredContent_run(2)[OF assms(1) ns, of d]
      run_list_query_exact[OF nf, of env "list_builder f contentIds"] m
    unfolding assms(2,3) by simp
  have o: "length hs = length ids" "subseq (map (\<lambda>a. c_id (a_row a)) (not_null hs)) ids"
    using map_getContentById_order[OF m] by simp_all
  have "length (not_null hs) \<le> length ids" using o(1) length_not_null[of hs] by simp
  then show "\<exists>rs. getFilteredContent env f d = (Inr rs, snd (map_getContentById env ids d0)) \<and>
      map Some rs = filter (\<lambda>h. h \<noteq> None) (fst (map_getContentById env ids d0)) \<and>
      length rs \<le> length ids \<and> subseq (map (\<lambda>a. c_id (a_row a)) rs) ids"
    using run m o(2) map_Some_not_null[of hs] by (intro exI[of _ "not_null hs"]) simp
next
  assume ns: "\<not> (truthy_str (search_trimmed f) \<and> contentIds = [])"
  assume "healthy d \<and> \<not> in_transaction d"
  then have h: "healthy d" and nt: "\<not> in_transaction d" by simp_all
  have nf: "\<not> faults d (calls d)" "\<not> faults d (Suc (calls d))"
    using h by (simp_all add: healthy_def)
  have h0: "healthy d0" "\<not> in_transaction d0" and s0: "same_tables d d0"
    using h nt unfolding assms(2) by simp_all
  obtain d1 where m: "map_getContentById env ids d0 = (map (hydrated env d0) ids, d1)"
    "same_tables d0 d1" "healthy d1" "\<not> in_transaction d1"
    using map_getContentById_healthy[OF h0, of env ids] by blast
  have hy: "hydrated env d0 = hydrated env d" by (rule hydrated_same_tables[OF s0])
  have run: "getFilteredContent env f d = (Inr (not_null (map (hydrated env d) ids)), d1)"
    using getFilteredContent_run(2)[OF assms(1) ns, of d]
      run_list_query_exact[OF nf, of env "list_builder f contentIds"] m(1) hy
    unfolding assms(2,3) by simp
  show "\<exists>rs. fst (getFilteredContent env f d) = Inr rs \<and>
      map Some rs = filter (\<lambda>h. h \<noteq> None) (map (hydrated env d) ids) \<and>
      map (\<lambda>a. c_id (a_row a)) rs = filter (\<lambda>i. i \<noteq> [] \<and> exists_row d i) ids \<and>
      same_tables d (snd (getFilteredContent env f d)) \<and>
      \<not> in_transaction (snd (getFilteredContent env f d))"
    using run map_Some_not_null[of "map (hydrated env d) ids"] hydrated_ids[of env d ids]
      same_tables_trans[OF s0 m(2)] m(4)
    by (intro exI[of _ "not_null (map (hydrated env d) ids)"]) simp
qed

text \<open>
  On the store of the examples, with the engine that returns \<^verbatim>\<open>c1\<close>, \<^verbatim>\<open>gone\<close>, \<^verbatim>\<open>a\<close>: no row has
  the second identifier, and the list holds the collection \<^verbatim>\<open>c1\<close> with its two surviving
  children and the article \<^verbatim>\<open>a\<close>, in this order.
\<close>

lemma ex_hydrated:
  "map (hydrated ex_env_list ex_db) [''c1'', ''gone'', ''a''] =
     [Some (Aggregate (ex_row ''c1'' ''collection'' (Some axb_json)) [ex_tag ''t1'' ''svelte'']
        (Resolved [Aggregate (ex_row ''a'' ''article'' None) [ex_tag ''t1'' ''svelte''] (Resolved []),
                   Aggregate (ex_row ''b'' ''article'' None) [ex_tag ''t2'' ''kit''] (Resolved [])])),
      None,
      Some (Aggregate (ex_row ''a'' ''article'' None) [ex_tag ''t1'' ''svelte''] (Stored None))]"
  by (simp add: hydrated_def children_of_def child_of_def exists_row_def tags_of_def
      ex_env_list_def ex_env_def ex_db_def ex_row_def ex_tag_def axb_json_def dq_def)

theorem filtered_content_hydrated_witness:
  "healthy ex_db \<and> \<not> in_transaction ex_db \<and> search_trimmed no_filters = None \<and>
   select_ids ex_env_list (query (list_builder no_filters [])) (params (list_builder no_filters []))
     (ex_db\<lparr>calls := Suc (Suc (calls ex_db))\<rparr>) = [''c1'', ''gone'', ''a''] \<and>
   fst (getFilteredContent ex_env_list no_filters ex_db) =
     Inr [Aggregate (ex_row ''c1'' ''collection'' (Some axb_json)) [ex_tag ''t1'' ''svelte'']
            (Resolved [Aggregate (ex_row ''a'' ''article'' None) [ex_tag ''t1'' ''svelte''] (Resolved []),
                       Aggregate (ex_row ''b'' ''article'' None) [ex_tag ''t2'' ''kit''] (Resolved [])]),
          Aggregate (ex_row ''a'' ''article'' None) [ex_tag ''t1'' ''svelte''] (Stored None)] \<and>
   same_tables ex_db (snd (getFilteredContent ex_env_list no_filters ex_db))"
proof -
  have st: "search_trimmed no_filters = None"
    by (simp add: search_trimmed_def no_filters_def)
  have c: "[] = (case search_trimmed no_filters of
      Some q \<Rightarrow> if q \<noteq> [] then search ex_env_list q else [] | None \<Rightarrow> [])"
    by (simp add: st)
  have i: "[''c1'', ''gone'', ''a''] = select_ids ex_env_list (query (list_builder no_filters []))
      (params (list_builder no_filters [])) (ex_db\<lparr>calls := Suc (Suc (calls ex_db))\<rparr>)"
    by (simp add: ex_env_list_def)
  have ns: "\<not> (truthy_str (search_trimmed no_filters) \<and> ([]::string list) = [])"
    by (simp add: st truthy_str_def)
  note t = filtered_content_hydrated[OF c refl i]
  note t1 = t[THEN conjunct2, rule_format, OF ns]
  note t2 = t1[THEN conjunct2, THEN conjunct2, rule_format, OF conjI[OF ex_reads(1) ex_reads(2)]]
  from t2 obtain rs where rs: "fst (getFilteredContent ex_env_list no_filters ex_db) = Inr rs"
    "map Some rs = filter (\<lambda>h. h \<noteq> None) (map (hydrated ex_env_list ex_db) [''c1'', ''gone'', ''a''])"
    "same_tables ex_db (snd (getFilteredContent ex_env_list no_filters ex_db))"
    by (elim exE conjE)
  have "rs = [Aggregate (ex_row ''c1'' ''collection'' (Some axb_json)) [ex_tag ''t1'' ''svelte'']
            (Resolved [Aggregate (ex_row ''a'' ''article'' None) [ex_tag ''t1'' ''svelte''] (Resolved []),
                       Aggregate (ex_row ''b'' ''article'' None) [ex_tag ''t2'' ''kit''] (Resolved [])]),
          Aggregate (ex_row ''a'' ''article'' None) [ex_tag ''t1'' ''svelte''] (Stored None)]"
    using rs(2) unfolding ex_hydrated by (auto simp add: map_eq_Cons_conv)
  then show ?thesis using rs(1,3) st i ex_reads by simp
qed

section \<open>Properties of the mutations\<close>

subsection \<open>Which failures of the store are caught\<close>

lemma catch_total:
  assumes "\<And>e d. \<exists>y d1. h e d = (Inr y, d1)"
  shows "\<exists>y. fst (catch m h d) = Inr y"
proof (cases "m d")
  case (Pair r d1)
  show ?thesis
  proof (cases r)
    case (Inl e)
    then show ?thesis using Pair assms[of e d1] by (auto simp add: catch_def)
  next
    case (Inr x)
    then show ?thesis using Pair by (simp add: catch_def)
  qed
qed

lemma ret_ok: "\<exists>y d1. ret x d = (Inr y, d1)"
  unfolding ret_def by blast

lemma bind_prepare_ok:
  "\<not> faults d (calls d) \<Longrightarrow> bind prepare k d = k () (d\<lparr>calls := Suc (calls d)\<rparr>)"
  by (simp add: bind_def prepare_def driver_call_def Let_def)

lemma bind_prepare_fails:
  "faults d (calls d) \<Longrightarrow> fst (bind prepare k d) = Inl StoreError"
  by (simp add: bind_def prepare_def driver_call_def Let_def)

lemma bind_driver_fails:
  "faults d (calls d) \<Longrightarrow> bind (driver_call act) k d = (Inl StoreError, d\<lparr>calls := Suc (calls d)\<rparr>)"
  by (simp add: bind_def driver_call_def Let_def)

lemma caught_results:
  assumes "\<not> faults d (calls d)"
  shows "\<exists>b. fst (delete_content i d) = Inr b"
    and "\<exists>r. fst (create_content env inp d) = Inr r"
    and "\<exists>b. fst (update_content env i inp d) = Inr b"
  unfolding delete_content_def create_content_def update_content_def
  by (subst bind_prepare_ok[OF assms], rule catch_total, rule ret_ok)+

lemma update_content_tags_total:
  assumes "\<not> faults d (calls d)" "\<not> faults d (Suc (calls d))"
  shows "fst (update_content_tags c ts d) = Inr ()"
proof -
  let ?d1 = "d\<lparr>calls := Suc (calls d)\<rparr>"
  have 1: "\<not> faults ?d1 (calls ?d1)" using assms(2) by simp
  have "\<exists>y. fst (catch (bind (remove_tags c ts) (\<lambda>_. upsert_tags c ts)) (\<lambda>e. ret ())
      (?d1\<lparr>calls := Suc (calls ?d1)\<rparr>)) = Inr y"
    by (rule catch_total, rule ret_ok)
  then show ?thesis
    unfolding update_content_tags_def
    by (simp only: bind_prepare_ok[OF assms(1)] bind_prepare_ok[OF 1]) simp
qed

lemma run_failure_reported:
  assumes "\<not> faults d (calls d)" "faults d (Suc (calls d))"
  shows "fst (delete_content i d) = Inr False"
    and "fst (create_content env inp d) = Inr None"
    and "fst (update_content env i inp d) = Inr False"
proof -
  let ?d1 = "d\<lparr>calls := Suc (calls d)\<rparr>"
  have 1: "faults ?d1 (calls ?d1)" using assms(2) by simp
  show "fst (delete_content i d) = Inr False"
    unfolding delete_content_def delete_row_def
    by (simp only: bind_prepare_ok[OF assms(1)])
       (simp add: catch_def bind_driver_fails[OF 1] ret_def)
  show "fst (create_content env inp d) = Inr None"
    unfolding create_content_def insert_input_def
    by (simp only: bind_prepare_ok[OF assms(1)])
       (simp add: catch_def bind_driver_fails[OF 1] ret_def)
  show "fst (update_content env i inp d) = Inr False"
    unfolding update_content_def update_input_def
    by (simp only: bind_prepare_ok[OF assms(1)])
       (simp add: catch_def bind_driver_fails[OF 1] ret_def)
qed

lemma prepare_failure_propagates:
  assumes "faults d (calls d)"
  shows "fst (delete_content i d) = Inl StoreError"
    and "fst (create_content env inp d) = Inl StoreError"
    and "fst (update_content env i inp d) = Inl StoreError"
    and "fst (update_content_tags c ts d) = Inl StoreError"
  unfolding delete_content_def create_content_def update_content_def update_content_tags_def
  by (simp_all only: bind_prepare_fails[OF assms])

lemma service_prepare_failure_propagates:
  assumes "faults d (calls d)"
  shows "fst (addContent data s now d) = Inl StoreError"
    and "fst (updateContent s data now d) = Inl StoreError"
  unfolding addContent_def updateContent_def
  by (simp_all only: bind_prepare_fails[OF assms])

lemma propagates_ret [simp]: "propagates (ret x)" "propagates (throw e)"
  by (auto simp add: propagates_def ret_def throw_def)

lemma propagates_bind:
  assumes m: "propagates m" and k: "\<And>x. propagates (k x)"
  shows "propagates (bind m k)"
  unfolding propagates_def
proof (intro allI impI)
  fix d y d2 assume b: "bind m k d = (Inr y, d2)"
  then obtain x d1 where 1: "m d = (Inr x, d1)" and 2: "k x d1 = (Inr y, d2)"
    by (auto simp add: bind_def split: prod.splits sum.splits)
  have p1: "faults d1 = faults d" "calls d \<le> calls d1"
    "\<forall>n. calls d \<le> n \<and> n < calls d1 \<longrightarrow> \<not> faults d n"
    using m 1 unfolding propagates_def by blast+
  have p2: "faults d2 = faults d1" "calls d1 \<le> calls d2"
    "\<forall>n. calls d1 \<le> n \<and> n < calls d2 \<longrightarrow> \<not> faults d1 n"
    using k[of x] 2 unfolding propagates_def by blast+
  show "faults d2 = faults d \<and> calls d \<le> calls d2 \<and>
      (\<forall>n. calls d \<le> n \<and> n < calls d2 \<longrightarrow> \<not> faults d n)"
    using p1 p2 by (metis le_trans not_le)
qed

lemma propagates_driver_call:
  assumes "\<And>d x d1. act d = (Inr x, d1) \<Longrightarrow> faults d1 = faults d \<and> calls d1 = calls d"
  shows "propagates (driver_call act)"
  unfolding propagates_def
proof (intro allI impI)
  fix d x d1 assume a: "driver_call act d = (Inr x, d1)"
  then have nf: "\<not> faults d (calls d)"
    and r: "act (d\<lparr>calls := Suc (calls d)\<rparr>) = (Inr x, d1)"
    by (auto simp add: driver_call_def Let_def split: if_splits)
  have "faults d1 = faults d" "calls d1 = Suc (calls d)"
    using assms[OF r] by simp_all
  then show "faults d1 = faults d \<and> calls d \<le> calls d1 \<and>
      (\<forall>n. calls d \<le> n \<and> n < calls d1 \<longrightarrow> \<not> faults d n)"
    using nf by (auto simp add: less_Suc_eq_le)
qed

lemma propagates_statements [simp]:
  "propagates prepare" "propagates (insert_content row)" "propagates (insert_pair c t)"
  "propagates (update_row s data now)" "propagates (delete_pairs c)"
  unfolding prepare_def insert_content_def insert_pair_def update_row_def delete_pairs_def
  by (rule propagates_driver_call, auto split: if_splits)+

lemma propagates_insert_pairs [simp]: "propagates (insert_pairs c ts)"
  by (induction ts) (auto intro!: propagates_bind)

lemma propagates_service:
  "propagates (addContent data s now)" "propagates (updateContent s data now)"
  unfolding addContent_def updateContent_def
  by (auto intro!: propagates_bind)

lemma service_failure_propagates:
  assumes "fst (m d) = Inr x" and "propagates m"
  shows "\<forall>n. calls d \<le> n \<and> n < calls (snd (m d)) \<longrightarrow> \<not> faults d n"
proof -
  have "m d = (Inr x, snd (m d))" using assms(1) by (metis prod.collapse)
  then show ?thesis using assms(2) unfolding propagates_def by blast
qed

text \<open>
  C8 (amended). The free functions catch the failures of the statements they run:
  when preparing the statement succeeds, \<^verbatim>\<open>delete_content\<close>, \<^verbatim>\<open>create_content\<close> and
  \<^verbatim>\<open>update_content\<close> return a value (a boolean, or an id or \<^verbatim>\<open>null\<close>) whatever fails later, and
  \<^verbatim>\<open>update_content_tags\<close> returns when its two statements could be prepared; a failure of
  the first statement run is reported as \<^verbatim>\<open>false\<close>, \<^verbatim>\<open>null\<close>, \<^verbatim>\<open>false\<close>. A failure of
  \<^verbatim>\<open>db.prepare\<close>, which stands before the \<^verbatim>\<open>try\<close>, propagates from all four. The methods
  \<^verbatim>\<open>addContent\<close> and \<^verbatim>\<open>updateContent\<close> of the service catch nothing: when they return, no
  driver call they made had failed.
\<close>

theorem mutation_failures:
  "(\<not> faults d (calls d) \<longrightarrow>
      (\<exists>b. fst (delete_content i d) = Inr b) \<and>
      (\<exists>r. fst (create_content env inp d) = Inr r) \<and>
      (\<exists>b. fst (update_content env i inp d) = Inr b))
   \<and> (\<not> faults d (calls d) \<and> \<not> faults d (Suc (calls d)) \<longrightarrow>
      fst (update_content_tags c ts d) = Inr ())
   \<and> (\<not> faults d (calls d) \<and> faults d (Suc (calls d)) \<longrightarrow>
      fst (delete_content i d) = Inr False \<and>
      fst (create_content env inp d) = Inr None \<and>
      fst (update_content env i inp d) = Inr False)
   \<and> (faults d (calls d) \<longrightarrow>
      fst (delete_content i d) = Inl StoreError \<and>
      fst (create_content env inp d) = Inl StoreError \<and>
      fst (update_content env i inp d) = Inl StoreError \<and>
      fst (update_content_tags c ts d) = Inl StoreError)
   \<and> (\<forall>x. fst (addContent data s now ds) = Inr x \<longrightarrow>
      (\<forall>n. calls ds \<le> n \<and> n < calls (snd (addContent data s now ds)) \<longrightarrow> \<not> faults ds n))
   \<and> (\<forall>x. fst (updateContent s data now ds) = Inr x \<longrightarrow>
      (\<forall>n. calls ds \<le> n \<and> n < calls (snd (updateContent s data now ds)) \<longrightarrow> \<not> faults ds n))"
proof -
  have a: "\<forall>x. fst (addContent data s now ds) = Inr x \<longrightarrow>
      (\<forall>n. calls ds \<le> n \<and> n < calls (snd (addContent data s now ds)) \<longrightarrow> \<not> faults ds n)"
    using service_failure_propagates[where m = "addContent data s now" and d = ds]
      propagates_service(1) by blast
  have u: "\<forall>x. fst (updateContent s data now ds) = Inr x \<longrightarrow>
      (\<forall>n. calls ds \<le> n \<and> n < calls (snd (updateContent s data now ds)) \<longrightarrow> \<not> faults ds n)"
    using service_failure_propagates[where m = "updateContent s data now" and d = ds]
      propagates_service(2) by blast
  show ?thesis
    using caught_results[of d] update_content_tags_total[of d c ts]
      run_failure_reported[of d] prepare_failure_propagates[of d] a u
    by blast
qed

text \<open>On the store of the examples: a failure of the statement run, no failure, and a failure of \<^verbatim>\<open>prepare\<close>.\<close>

theorem mutation_failures_witness:
  "\<not> faults (ex_mdb\<lparr>faults := (\<lambda>n. n = 1)\<rparr>) (calls (ex_mdb\<lparr>faults := (\<lambda>n. n = 1)\<rparr>)) \<and>
   faults (ex_mdb\<lparr>faults := (\<lambda>n. n = 1)\<rparr>) (Suc (calls (ex_mdb\<lparr>faults := (\<lambda>n. n = 1)\<rparr>))) \<and>
   fst (delete_content 7 (ex_mdb\<lparr>faults := (\<lambda>n. n = 1)\<rparr>)) = Inr False \<and>
   fst (create_content ex_menv (ex_input None None) (ex_mdb\<lparr>faults := (\<lambda>n. n = 1)\<rparr>)) = Inr None \<and>
   fst (update_content ex_menv 7 (ex_input None None) (ex_mdb\<lparr>faults := (\<lambda>n. n = 1)\<rparr>)) = Inr False \<and>
   fst (update_content_tags 7 [2, 3, 4] ex_mdb) = Inr () \<and>
   faults (ex_mdb\<lparr>faults := (\<lambda>n. n = 0)\<rparr>) (calls (ex_mdb\<lparr>faults := (\<lambda>n. n = 0)\<rparr>)) \<and>
   fst (delete_content 7 (ex_mdb\<lparr>faults := (\<lambda>n. n = 0)\<rparr>)) = Inl StoreError"
  using mutation_failures[of "ex_mdb\<lparr>faults := (\<lambda>n. n = 1)\<rparr>" 7 ex_menv "ex_input None None"
      7 "[2, 3, 4]" "ex_data ''draft'' []" "''new''" "''now''" ex_tagged]
    mutation_failures[of ex_mdb 7 ex_menv "ex_input None None"
      7 "[2, 3, 4]" "ex_data ''draft'' []" "''new''" "''now''" ex_tagged]
    mutation_failures[of "ex_mdb\<lparr>faults := (\<lambda>n. n = 0)\<rparr>" 7 ex_menv "ex_input None None"
      7 "[2, 3, 4]" "ex_data ''draft'' []" "''new''" "''now''" ex_tagged]
  by (simp add: ex_mdb_def)

text \<open>
  C8 as stated fails for the service: when the \<^verbatim>\<open>INSERT\<close> of \<^verbatim>\<open>addContent\<close> or the \<^verbatim>\<open>UPDATE\<close> of
  \<^verbatim>\<open>updateContent\<close> fails (driver call number 1), the failure reaches the caller as an
  exception.
\<close>

theorem service_failure_counterexample:
  "faults (ex_tagged\<lparr>faults := (\<lambda>n. n = 1)\<rparr>) 1 \<and>
   fst (addContent (ex_data ''published'' [''1'']) ''new'' ''now''
          (ex_tagged\<lparr>faults := (\<lambda>n. n = 1)\<rparr>)) = Inl StoreError \<and>
   fst (updateContent ''c1'' (ex_data ''published'' [''1'']) ''now''
          (ex_tagged\<lparr>faults := (\<lambda>n. n = 1)\<rparr>)) = Inl StoreError"
  by (simp add: addContent_def updateContent_def bind_def prepare_def insert_content_def
      update_row_def driver_call_def ex_tagged_def ex_db_def Let_def)

subsection \<open>The publication time\<close>

text \<open>
  The \<^verbatim>\<open>CASE\<close> of \<^verbatim>\<open>updateContent\<close> keeps the invariant of a row whose status is not \<^verbatim>\<open>NULL\<close>,
  sets the time on the transition to \<^verbatim>\<open>published\<close>, clears it on the transition away, and
  keeps it when the status stays.
\<close>

lemma published_at_case_iff:
  assumes "old \<noteq> None" and "p \<noteq> None \<longleftrightarrow> old = Some ''published''"
  shows "published_at_case old new now p \<noteq> None \<longleftrightarrow> new = ''published''"
  using assms by (auto simp add: published_at_case_def split: option.splits)

lemma published_at_case_transitions:
  "s \<noteq> ''published'' \<Longrightarrow> published_at_case (Some s) ''published'' now p = Some now"
  "new \<noteq> ''published'' \<Longrightarrow> published_at_case (Some ''published'') new now p = None"
  "published_at_case (Some s) s now p = p"
  by (auto simp add: published_at_case_def)

lemma driver_callD:
  "driver_call act d = (Inr x, d1) \<Longrightarrow> act (d\<lparr>calls := Suc (calls d)\<rparr>) = (Inr x, d1)"
  by (auto simp add: driver_call_def Let_def split: if_splits)

lemma insert_pairs_content:
  "insert_pairs c ts d = (r, d1) \<Longrightarrow> content d1 = content d"
proof (induction ts arbitrary: d)
  case Nil
  then show ?case by (simp add: ret_def)
next
  case (Cons t ts)
  show ?case
  proof (cases "insert_pair c t d")
    case (Pair r1 d2)
    have c2: "content d2 = content d"
      using Pair by (auto simp add: insert_pair_def driver_call_def Let_def split: if_splits)
    show ?thesis
    proof (cases r1)
      case (Inl e)
      then show ?thesis using Cons.prems Pair c2 by (simp add: bind_def)
    next
      case (Inr u)
      then have "insert_pairs c ts d2 = (r, d1)" using Cons.prems Pair by (simp add: bind_def)
      then show ?thesis using Cons.IH c2 by simp
    qed
  qed
qed

lemma addContent_published_at:
  assumes "fst (addContent data i now d) = Inr x"
  shows "\<exists>row. content (snd (addContent data i now d)) = content d @ [row] \<and> c_id row = i \<and>
     c_status row = Some (d_status data) \<and>
     c_published_at row = (if d_status data = ''published'' then Some now else None) \<and>
     published_iff row"
proof -
  let ?row = "\<lparr> c_id = i, c_title = d_title data, c_type = d_type data,
             c_status = Some (d_status data), c_body = Some (d_body data),
             c_rendered_body = None, c_slug = d_slug data,
             c_description = Some (d_description data), c_metadata = None, c_children = None,
             c_created_at = now, c_updated_at = now,
             c_published_at = (if d_status data = ''published'' then Some now else None),
             c_likes = 0, c_saves = 0 \<rparr>"
  let ?tags = "if length (d_tags data) > 0
           then bind prepare (\<lambda>_. insert_pairs i (d_tags data)) else ret ()"
  have e: "addContent data i now d = (Inr x, snd (addContent data i now d))"
    using assms by (metis prod.collapse)
  from e obtain u1 d1 where p: "prepare d = (Inr u1, d1)"
    and r1: "bind (insert_content ?row) (\<lambda>_. bind ?tags (\<lambda>_. ret i)) d1 =
      (Inr x, snd (addContent data i now d))"
    unfolding addContent_def by (auto simp add: bind_def split: prod.splits sum.splits)
  from r1 obtain u2 d2 where ins: "insert_content ?row d1 = (Inr u2, d2)"
    and r2: "bind ?tags (\<lambda>_. ret i) d2 = (Inr x, snd (addContent data i now d))"
    by (auto simp add: bind_def split: prod.splits sum.splits)
  from r2 obtain u3 where r3: "?tags d2 = (Inr u3, snd (addContent data i now d))"
    by (auto simp add: bind_def ret_def split: prod.splits sum.splits)
  have c1: "content d1 = content d"
    using p by (auto simp add: prepare_def driver_call_def Let_def split: if_splits)
  have c2: "content d2 = content d1 @ [?row]"
    using ins by (auto simp add: insert_content_def driver_call_def Let_def split: if_splits)
  have c3: "content (snd (addContent data i now d)) = content d2"
  proof (cases "length (d_tags data) > 0")
    case True
    then obtain u4 d3 where p3: "prepare d2 = (Inr u4, d3)"
      and i3: "insert_pairs i (d_tags data) d3 = (Inr u3, snd (addContent data i now d))"
      using r3 by (auto simp add: bind_def split: prod.splits sum.splits)
    have "content d3 = content d2"
      using p3 by (auto simp add: prepare_def driver_call_def Let_def split: if_splits)
    then show ?thesis using insert_pairs_content[OF i3] by simp
  next
    case False
    then show ?thesis using r3 by (simp add: ret_def)
  qed
  have "published_iff ?row" by (simp add: published_iff_def)
  then show ?thesis using c1 c2 c3 by (intro exI[of _ ?row]) simp
qed

lemma delete_pairs_content:
  "delete_pairs c d = (r, d1) \<Longrightarrow> content d1 = content d"
  by (auto simp add: delete_pairs_def driver_call_def Let_def split: if_splits)

lemma prepare_content:
  "prepare d = (r, d1) \<Longrightarrow> content d1 = content d"
  by (auto simp add: prepare_def driver_call_def Let_def split: if_splits)

lemma update_row_content:
  "update_row i data now d = (Inr u, d1) \<Longrightarrow>
   content d1 = map (\<lambda>r. if c_id r = i
        then r\<lparr> c_title := d_title data, c_slug := d_slug data,
                c_description := Some (d_description data), c_type := d_type data,
                c_status := Some (d_status data), c_body := Some (d_body data),
                c_updated_at := now,
                c_published_at := published_at_case (c_status r) (d_status data) now
                                    (c_published_at r) \<rparr>
        else r) (content d)"
  by (auto simp add: update_row_def driver_call_def Let_def split: if_splits)

lemma updateContent_content:
  assumes "fst (updateContent i data now d) = Inr x"
  shows "content (snd (updateContent i data now d)) = map (\<lambda>r. if c_id r = i
        then r\<lparr> c_title := d_title data, c_slug := d_slug data,
                c_description := Some (d_description data), c_type := d_type data,
                c_status := Some (d_status data), c_body := Some (d_body data),
                c_updated_at := now,
                c_published_at := published_at_case (c_status r) (d_status data) now
                                    (c_published_at r) \<rparr>
        else r) (content d)"
proof -
  let ?tags = "if length (d_tags data) > 0
           then bind prepare (\<lambda>_. insert_pairs i (d_tags data)) else ret ()"
  have e: "updateContent i data now d = (Inr x, snd (updateContent i data now d))"
    using assms by (metis prod.collapse)
  from e obtain u1 d1 where p1: "prepare d = (Inr u1, d1)"
    and r1: "bind (update_row i data now) (\<lambda>_. bind prepare (\<lambda>_. bind (delete_pairs i)
        (\<lambda>_. ?tags))) d1 = (Inr x, snd (updateContent i data now d))"
    unfolding updateContent_def by (auto simp add: bind_def split: prod.splits sum.splits)
  from r1 obtain u2 d2 where up: "update_row i data now d1 = (Inr u2, d2)"
    and r2: "bind prepare (\<lambda>_. bind (delete_pairs i) (\<lambda>_. ?tags)) d2 =
        (Inr x, snd (updateContent i data now d))"
    by (auto simp add: bind_def split: prod.splits sum.splits)
  from r2 obtain u3 d3 where p3: "prepare d2 = (Inr u3, d3)"
    and r3: "bind (delete_pairs i) (\<lambda>_. ?tags) d3 = (Inr x, snd (updateContent i data now d))"
    by (auto simp add: bind_def split: prod.splits sum.splits)
  from r3 obtain u4 d4 where dl: "delete_pairs i d3 = (Inr u4, d4)"
    and r4: "?tags d4 = (Inr x, snd (updateContent i data now d))"
    by (auto simp add: bind_def split: prod.splits sum.splits)
  have c5: "content (snd (updateContent i data now d)) = content d4"
  proof (cases "length (d_tags data) > 0")
    case True
    then obtain u5 d5 where p5: "prepare d4 = (Inr u5, d5)"
      and i5: "insert_pairs i (d_tags data) d5 = (Inr x, snd (updateContent i data now d))"
      using r4 by (auto simp add: bind_def split: prod.splits sum.splits)
    show ?thesis using insert_pairs_content[OF i5] prepare_content[OF p5] by simp
  next
    case False
    then show ?thesis using r4 by (simp add: ret_def)
  qed
  show ?thesis
    using c5 delete_pairs_content[OF dl] prepare_content[OF p3] update_row_content[OF up]
      prepare_content[OF p1]
    by simp
qed

lemma updateContent_published_at:
  assumes ok: "fst (updateContent i data now d) = Inr x"
    and inv: "\<forall>r \<in> set (content d). c_status r \<noteq> None \<and> published_iff r"
  shows "\<forall>r \<in> set (content (snd (updateContent i data now d))).
           c_status r \<noteq> None \<and> published_iff r"
proof
  fix r1 assume "r1 \<in> set (content (snd (updateContent i data now d)))"
  then obtain r where r: "r \<in> set (content d)"
    and r1: "r1 = (if c_id r = i
        then r\<lparr> c_title := d_title data, c_slug := d_slug data,
                c_description := Some (d_description data), c_type := d_type data,
                c_status := Some (d_status data), c_body := Some (d_body data),
                c_updated_at := now,
                c_published_at := published_at_case (c_status r) (d_status data) now
                                    (c_published_at r) \<rparr>
        else r)"
    unfolding updateContent_content[OF ok] by auto
  have old: "c_status r \<noteq> None" "c_published_at r \<noteq> None \<longleftrightarrow> c_status r = Some ''published''"
    using inv r by (auto simp add: published_iff_def)
  show "c_status r1 \<noteq> None \<and> published_iff r1"
  proof (cases "c_id r = i")
    case True
    then show ?thesis
      using r1 published_at_case_iff[OF old, of "d_status data" now]
      by (simp add: published_iff_def)
  next
    case False
    then show ?thesis using r1 old by (simp add: published_iff_def)
  qed
qed

text \<open>
  C3. The service keeps the invariant (\<open>addContent_published_at\<close>,
  \<open>updateContent_published_at\<close> above); the free functions do not: the \<^verbatim>\<open>INSERT\<close> of
  \<^verbatim>\<open>create_content\<close> and the \<^verbatim>\<open>UPDATE\<close> of \<^verbatim>\<open>update_content\<close> never name \<^verbatim>\<open>published_at\<close>.
  On the store of the examples, creating a content with status \<^verbatim>\<open>published\<close> gives the row 9
  with that status and no publication time, and updating the draft 7 to \<^verbatim>\<open>published\<close>
  leaves its publication time \<^verbatim>\<open>NULL\<close>.
\<close>

theorem create_content_published_at_null:
  "fst (create_content ex_menv (ex_input (Some ''published'') None) ex_mdb) = Inr (Some 9) \<and>
   c_id (last (content (snd (create_content ex_menv (ex_input (Some ''published'') None) ex_mdb)))) = 9 \<and>
   c_status (last (content (snd (create_content ex_menv (ex_input (Some ''published'') None) ex_mdb))))
     = Some ''published'' \<and>
   c_published_at (last (content (snd (create_content ex_menv (ex_input (Some ''published'') None) ex_mdb))))
     = None \<and>
   hd (content ex_mdb) = ex_mrow 7 ''draft'' \<and>
   fst (update_content ex_menv 7 (ex_input (Some ''published'') None) ex_mdb) = Inr True \<and>
   c_id (hd (content (snd (update_content ex_menv 7 (ex_input (Some ''published'') None) ex_mdb)))) = 7 \<and>
   c_status (hd (content (snd (update_content ex_menv 7 (ex_input (Some ''published'') None) ex_mdb))))
     = Some ''published'' \<and>
   c_published_at (hd (content (snd (update_content ex_menv 7 (ex_input (Some ''published'') None) ex_mdb))))
     = None"
  by (simp add: create_content_def update_content_def update_content_tags_def catch_def
      bind_def ret_def prepare_def insert_input_def update_input_def remove_tags_def
      upsert_tags_def run_with_object_def upsert_pair_def driver_call_def tags_or_empty_def ex_mdb_def ex_menv_def
      ex_input_def ex_mrow_def ex_mtag_def Let_def)

subsection \<open>Replacing the tags of a content\<close>

text \<open>
  The free functions. For a list of tags that is not empty the first statement of
  \<^verbatim>\<open>update_content_tags\<close> is run with its placeholders unbound: the run throws, the \<^verbatim>\<open>catch\<close>
  logs, the second statement is not run, and the store is as before but for the three
  driver calls.
\<close>

lemma update_content_tags_unbound:
  assumes "ts \<noteq> []" "\<not> faults d (calls d)" "\<not> faults d (Suc (calls d))"
  shows "update_content_tags c ts d = (Inr (), d\<lparr>calls := Suc (Suc (Suc (calls d)))\<rparr>)"
  using assms
  by (simp add: update_content_tags_def bind_def catch_def prepare_def remove_tags_def
      run_with_object_def driver_call_def Let_def ret_def)

lemma update_content_tags_frame:
  assumes "ts \<noteq> []"
  shows "same_tables d (snd (update_content_tags c ts d))"
    and "journal (snd (update_content_tags c ts d)) = journal d"
  using assms
  by (simp_all add: update_content_tags_def bind_def catch_def prepare_def remove_tags_def
      run_with_object_def driver_call_def Let_def ret_def same_tables_def)

lemma update_content_frame:
  assumes "tags_or_empty inp \<noteq> []"
  shows "content_to_tags (snd (update_content env i inp d)) = content_to_tags d"
    and "journal (snd (update_content env i inp d)) = journal d"
  using assms
  by (simp_all add: update_content_def update_input_def update_content_tags_def bind_def
      catch_def prepare_def remove_tags_def run_with_object_def driver_call_def Let_def ret_def)

text \<open>The service.\<close>

lemma healthy_tables [simp]:
  "healthy (d\<lparr>content_to_tags := x\<rparr>) = healthy d"
  "healthy (d\<lparr>journal := y\<rparr>) = healthy d"
  "healthy (d\<lparr>content := z\<rparr>) = healthy d"
  by (simp_all add: healthy_def)

lemma insert_pairs_healthy:
  "healthy d \<Longrightarrow> distinct ts \<Longrightarrow> \<forall>t \<in> set ts. (c, t) \<notin> set (content_to_tags d) \<Longrightarrow>
   \<exists>d1. insert_pairs c ts d = (Inr (), d1) \<and>
     content_to_tags d1 = content_to_tags d @ map (Pair c) ts \<and>
     journal d1 = journal d @ map (\<lambda>t. Inserted (c, t)) ts"
proof (induction ts arbitrary: d)
  case Nil
  then show ?case by (simp add: ret_def)
next
  case (Cons t ts)
  let ?d1 = "d\<lparr>calls := Suc (calls d), content_to_tags := content_to_tags d @ [(c, t)],
      journal := journal d @ [Inserted (c, t)]\<rparr>"
  have step: "insert_pair c t d = (Inr (), ?d1)"
    using Cons.prems by (simp add: insert_pair_def driver_call_healthy)
  have h1: "healthy ?d1" using Cons.prems(1) by simp
  have f1: "\<forall>t1 \<in> set ts. (c, t1) \<notin> set (content_to_tags ?d1)"
    using Cons.prems(2,3) by auto
  obtain d2 where d2: "insert_pairs c ts ?d1 = (Inr (), d2)"
    "content_to_tags d2 = content_to_tags ?d1 @ map (Pair c) ts"
    "journal d2 = journal ?d1 @ map (\<lambda>t. Inserted (c, t)) ts"
    using Cons.IH[OF h1 _ f1] Cons.prems(2) by auto
  show ?case using step d2 by (simp add: bind_def)
qed

lemma updateContent_effect:
  assumes h: "healthy d" and dist: "distinct (d_tags data)"
  shows "\<exists>d1. updateContent i data now d = (Inr (), d1) \<and>
     content_to_tags d1 =
       filter (\<lambda>(c, t). c \<noteq> i) (content_to_tags d) @ map (Pair i) (d_tags data) \<and>
     journal d1 = journal d @
       map Deleted (filter (\<lambda>(c, t). c = i) (content_to_tags d)) @
       map (\<lambda>t. Inserted (i, t)) (d_tags data)"
proof -
  let ?upd = "map (\<lambda>r. if c_id r = i
        then r\<lparr> c_title := d_title data, c_slug := d_slug data,
                c_description := Some (d_description data), c_type := d_type data,
                c_status := Some (d_status data), c_body := Some (d_body data),
                c_updated_at := now,
                c_published_at := published_at_case (c_status r) (d_status data) now
                                    (c_published_at r) \<rparr>
        else r) (content d)"
  let ?d4 = "d\<lparr>content := ?upd, calls := Suc (Suc (Suc (Suc (calls d)))),
      content_to_tags := filter (\<lambda>(c, t). c \<noteq> i) (content_to_tags d),
      journal := journal d @ map Deleted (filter (\<lambda>(c, t). c = i) (content_to_tags d))\<rparr>"
  have nf: "\<And>n. \<not> faults d n" using h by (simp add: healthy_def)
  have run: "updateContent i data now d =
      (if length (d_tags data) > 0
       then bind prepare (\<lambda>_. insert_pairs i (d_tags data)) else ret ()) ?d4"
    by (simp add: updateContent_def bind_def prepare_def update_row_def delete_pairs_def
        driver_call_def Let_def nf)
  show ?thesis
  proof (cases "length (d_tags data) > 0")
    case False
    then show ?thesis using run by (simp add: ret_def)
  next
    case True
    let ?d5 = "?d4\<lparr>calls := Suc (calls ?d4)\<rparr>"
    have h5: "healthy ?d5" using h by simp
    have f5: "\<forall>t \<in> set (d_tags data). (i, t) \<notin> set (content_to_tags ?d5)" by simp
    obtain d6 where d6: "insert_pairs i (d_tags data) ?d5 = (Inr (), d6)"
      "content_to_tags d6 = content_to_tags ?d5 @ map (Pair i) (d_tags data)"
      "journal d6 = journal ?d5 @ map (\<lambda>t. Inserted (i, t)) (d_tags data)"
      using insert_pairs_healthy[OF h5 dist f5] by blast
    have "updateContent i data now d = insert_pairs i (d_tags data) ?d5"
      using run True by (simp add: bind_def prepare_def driver_call_def Let_def nf)
    then show ?thesis using d6 by simp
  qed
qed

lemma delete_and_insert:
  assumes "healthy d" "distinct (d_tags data)"
  shows "let d1 = snd (updateContent i data now d);
             J = drop (length (journal d)) (journal d1)
         in fst (updateContent i data now d) = Inr () \<and>
            {t. (i, t) \<in> set (content_to_tags d1)} = set (d_tags data) \<and>
            (\<forall>t. (i, t) \<in> set (content_to_tags d) \<longrightarrow> Deleted (i, t) \<in> set J) \<and>
            (\<forall>t \<in> set (d_tags data). Inserted (i, t) \<in> set J) \<and>
            filter (\<lambda>(c1, t). c1 \<noteq> i) (content_to_tags d1) =
              filter (\<lambda>(c1, t). c1 \<noteq> i) (content_to_tags d) \<and>
            (\<forall>c1 t. c1 \<noteq> i \<longrightarrow> Deleted (c1, t) \<notin> set J \<and> Inserted (c1, t) \<notin> set J)"
proof -
  obtain d1 where e: "updateContent i data now d = (Inr (), d1)"
    and t: "content_to_tags d1 =
       filter (\<lambda>(c, t). c \<noteq> i) (content_to_tags d) @ map (Pair i) (d_tags data)"
    and j: "journal d1 = journal d @
       map Deleted (filter (\<lambda>(c, t). c = i) (content_to_tags d)) @
       map (\<lambda>t. Inserted (i, t)) (d_tags data)"
    using updateContent_effect[OF assms, of i now] by blast
  have J: "drop (length (journal d)) (journal d1) =
      map Deleted (filter (\<lambda>(c, t). c = i) (content_to_tags d)) @
      map (\<lambda>t. Inserted (i, t)) (d_tags data)"
    using j by simp
  have others: "filter (\<lambda>(c1, t). c1 \<noteq> i) (map (Pair i) (d_tags data)) = []"
    by (auto simp add: filter_empty_conv)
  have 1: "{t. (i, t) \<in> set (content_to_tags d1)} = set (d_tags data)"
    unfolding t by auto
  have 2: "\<forall>t. (i, t) \<in> set (content_to_tags d) \<longrightarrow>
      Deleted (i, t) \<in> set (drop (length (journal d)) (journal d1))"
    unfolding J by auto
  have 3: "\<forall>t \<in> set (d_tags data).
      Inserted (i, t) \<in> set (drop (length (journal d)) (journal d1))"
    unfolding J by auto
  have 4: "filter (\<lambda>(c1, t). c1 \<noteq> i) (content_to_tags d1) =
      filter (\<lambda>(c1, t). c1 \<noteq> i) (content_to_tags d)"
    unfolding t using others by simp
  have 5: "\<forall>c1 t. c1 \<noteq> i \<longrightarrow>
      Deleted (c1, t) \<notin> set (drop (length (journal d)) (journal d1)) \<and>
      Inserted (c1, t) \<notin> set (drop (length (journal d)) (journal d1))"
    unfolding J by auto
  show ?thesis using e 1 2 3 4 5 by (simp add: Let_def)
qed

text \<open>
  C4. The tags are not replaced by an upsert-and-prune in either implementation. In the
  free functions, \<^verbatim>\<open>update_content_tags\<close> with a list of tags that is not empty changes no
  pair of \<^verbatim>\<open>content_to_tags\<close>, whatever fails: the tables and the journal are as before, and
  when the two statements could be prepared the function returns after three driver calls
  (the second statement is never run); so \<^verbatim>\<open>update_content\<close> with such a list leaves the
  pairs as they were. In the service, on a store without failures and for a list without
  duplicates, \<^verbatim>\<open>updateContent\<close> deletes every old pair of the content, also those of the new
  list, and inserts every tag of the list: afterwards exactly the new list is associated,
  and the pairs of every other content stay as they are.
\<close>

theorem tag_replacement_not_run:
  "(ts \<noteq> [] \<longrightarrow>
      same_tables d (snd (update_content_tags c ts d)) \<and>
      journal (snd (update_content_tags c ts d)) = journal d \<and>
      (\<not> faults d (calls d) \<and> \<not> faults d (Suc (calls d)) \<longrightarrow>
         update_content_tags c ts d = (Inr (), d\<lparr>calls := Suc (Suc (Suc (calls d)))\<rparr>)))
   \<and> (tags_or_empty inp \<noteq> [] \<longrightarrow>
      content_to_tags (snd (update_content env c inp d)) = content_to_tags d \<and>
      journal (snd (update_content env c inp d)) = journal d)
   \<and> (healthy ds \<and> distinct (d_tags data) \<longrightarrow>
     (let d1 = snd (updateContent i data now ds);
          J = drop (length (journal ds)) (journal d1)
      in fst (updateContent i data now ds) = Inr () \<and>
         {t. (i, t) \<in> set (content_to_tags d1)} = set (d_tags data) \<and>
         (\<forall>t. (i, t) \<in> set (content_to_tags ds) \<longrightarrow> Deleted (i, t) \<in> set J) \<and>
         (\<forall>t \<in> set (d_tags data). Inserted (i, t) \<in> set J) \<and>
         filter (\<lambda>(c1, t). c1 \<noteq> i) (content_to_tags d1) =
           filter (\<lambda>(c1, t). c1 \<noteq> i) (content_to_tags ds) \<and>
         (\<forall>c1 t. c1 \<noteq> i \<longrightarrow> Deleted (c1, t) \<notin> set J \<and> Inserted (c1, t) \<notin> set J)))"
proof (intro conjI impI)
  assume "ts \<noteq> []"
  then show "same_tables d (snd (update_content_tags c ts d))"
    and "journal (snd (update_content_tags c ts d)) = journal d"
    by (rule update_content_tags_frame)+
next
  assume "ts \<noteq> []" and "\<not> faults d (calls d) \<and> \<not> faults d (Suc (calls d))"
  then show "update_content_tags c ts d = (Inr (), d\<lparr>calls := Suc (Suc (Suc (calls d)))\<rparr>)"
    using update_content_tags_unbound[of ts d c] by simp
next
  assume "tags_or_empty inp \<noteq> []"
  then show "content_to_tags (snd (update_content env c inp d)) = content_to_tags d"
    and "journal (snd (update_content env c inp d)) = journal d"
    by (rule update_content_frame)+
next
  assume "healthy ds \<and> distinct (d_tags data)"
  then have h: "healthy ds" "distinct (d_tags data)" by simp_all
  show "let d1 = snd (updateContent i data now ds);
          J = drop (length (journal ds)) (journal d1)
      in fst (updateContent i data now ds) = Inr () \<and>
         {t. (i, t) \<in> set (content_to_tags d1)} = set (d_tags data) \<and>
         (\<forall>t. (i, t) \<in> set (content_to_tags ds) \<longrightarrow> Deleted (i, t) \<in> set J) \<and>
         (\<forall>t \<in> set (d_tags data). Inserted (i, t) \<in> set J) \<and>
         filter (\<lambda>(c1, t). c1 \<noteq> i) (content_to_tags d1) =
           filter (\<lambda>(c1, t). c1 \<noteq> i) (content_to_tags ds) \<and>
         (\<forall>c1 t. c1 \<noteq> i \<longrightarrow> Deleted (c1, t) \<notin> set J \<and> Inserted (c1, t) \<notin> set J)"
    by (rule delete_and_insert[OF h])
qed

text \<open>
  On the stores of the examples: the content 7 carries the tags 1, 2, 3 and keeps exactly
  them when \<^verbatim>\<open>update_content_tags\<close> or \<^verbatim>\<open>update_content\<close> is given the tags 2, 3, 4; the
  collection \<^verbatim>\<open>c1\<close> goes from 1, 2, 3 to 2, 3, 4 by \<^verbatim>\<open>updateContent\<close>, which deletes the pair
  with the tag 2 and inserts it again.
\<close>

lemma ex_updateContent:
  "fst (updateContent ''c1'' (ex_data ''draft'' [''2'', ''3'', ''4'']) ''now'' ex_tagged) = Inr ()"
  "content_to_tags (snd (updateContent ''c1'' (ex_data ''draft'' [''2'', ''3'', ''4'']) ''now'' ex_tagged)) =
     [(''a'', ''1''), (''c1'', ''2''), (''c1'', ''3''), (''c1'', ''4'')]"
  "journal (snd (updateContent ''c1'' (ex_data ''draft'' [''2'', ''3'', ''4'']) ''now'' ex_tagged)) =
     [Deleted (''c1'', ''1''), Deleted (''c1'', ''2''), Deleted (''c1'', ''3''),
      Inserted (''c1'', ''2''), Inserted (''c1'', ''3''), Inserted (''c1'', ''4'')]"
  by (simp_all add: updateContent_def bind_def prepare_def update_row_def delete_pairs_def
      insert_pair_def driver_call_def ret_def ex_tagged_def ex_db_def ex_data_def Let_def)

theorem tag_replacement_not_run_witness:
  "[2, 3, 4] \<noteq> ([]::int list) \<and>
   \<not> faults ex_mdb (calls ex_mdb) \<and> \<not> faults ex_mdb (Suc (calls ex_mdb)) \<and>
   content_to_tags ex_mdb = [(7, 1), (7, 2), (7, 3), (8, 1)] \<and>
   fst (update_content_tags 7 [2, 3, 4] ex_mdb) = Inr () \<and>
   content_to_tags (snd (update_content_tags 7 [2, 3, 4] ex_mdb)) = [(7, 1), (7, 2), (7, 3), (8, 1)] \<and>
   journal (snd (update_content_tags 7 [2, 3, 4] ex_mdb)) = [] \<and>
   calls (snd (update_content_tags 7 [2, 3, 4] ex_mdb)) = 3 \<and>
   tags_or_empty (ex_input (Some ''draft'') (Some [2, 3, 4])) = [2, 3, 4] \<and>
   fst (update_content ex_menv 7 (ex_input (Some ''draft'') (Some [2, 3, 4])) ex_mdb) = Inr True \<and>
   content_to_tags (snd (update_content ex_menv 7 (ex_input (Some ''draft'') (Some [2, 3, 4])) ex_mdb)) =
     [(7, 1), (7, 2), (7, 3), (8, 1)] \<and>
   healthy ex_tagged \<and> distinct (d_tags (ex_data ''draft'' [''2'', ''3'', ''4''])) \<and>
   (''c1'', ''2'') \<in> set (content_to_tags ex_tagged) \<and>
   fst (updateContent ''c1'' (ex_data ''draft'' [''2'', ''3'', ''4'']) ''now'' ex_tagged) = Inr () \<and>
   {t. (''c1'', t) \<in> set (content_to_tags
        (snd (updateContent ''c1'' (ex_data ''draft'' [''2'', ''3'', ''4'']) ''now'' ex_tagged)))} =
     set (d_tags (ex_data ''draft'' [''2'', ''3'', ''4''])) \<and>
   journal (snd (updateContent ''c1'' (ex_data ''draft'' [''2'', ''3'', ''4'']) ''now'' ex_tagged)) =
     [Deleted (''c1'', ''1''), Deleted (''c1'', ''2''), Deleted (''c1'', ''3''),
      Inserted (''c1'', ''2''), Inserted (''c1'', ''3''), Inserted (''c1'', ''4'')]"
proof -
  have n: "[2, 3, 4] \<noteq> ([]::int list)" by simp
  have f: "\<not> faults ex_mdb (calls ex_mdb) \<and> \<not> faults ex_mdb (Suc (calls ex_mdb))"
    by (simp add: ex_mdb_def)
  have g: "tags_or_empty (ex_input (Some ''draft'') (Some [2, 3, 4])) = [2, 3, 4]"
    by (simp add: tags_or_empty_def ex_input_def)
  then have g1: "tags_or_empty (ex_input (Some ''draft'') (Some [2, 3, 4])) \<noteq> []" by simp
  have h: "healthy ex_tagged \<and> distinct (d_tags (ex_data ''draft'' [''2'', ''3'', ''4'']))"
    by (simp add: healthy_def ex_tagged_def ex_db_def ex_data_def)
  note t = tag_replacement_not_run[of "[2, 3, 4]" ex_mdb 7 "ex_input (Some ''draft'') (Some [2, 3, 4])"
      ex_menv ex_tagged "ex_data ''draft'' [''2'', ''3'', ''4'']" "''c1''" "''now''"]
  note t1 = t[THEN conjunct1, rule_format, OF n]
  note t2 = t[THEN conjunct2, THEN conjunct1, rule_format, OF g1]
  note t3 = t[THEN conjunct2, THEN conjunct2, rule_format, OF h, unfolded Let_def]
  note run = t1[THEN conjunct2, THEN conjunct2, rule_format, OF f]
  have c: "content_to_tags ex_mdb = [(7, 1), (7, 2), (7, 3), (8, 1)]" "journal ex_mdb = []"
    "calls ex_mdb = 0"
    by (simp_all add: ex_mdb_def)
  have a: "fst (update_content_tags 7 [2, 3, 4] ex_mdb) = Inr ()"
    "calls (snd (update_content_tags 7 [2, 3, 4] ex_mdb)) = 3"
    unfolding run by (simp_all add: c)
  have b: "content_to_tags (snd (update_content_tags 7 [2, 3, 4] ex_mdb)) =
      [(7, 1), (7, 2), (7, 3), (8, 1)]"
    "journal (snd (update_content_tags 7 [2, 3, 4] ex_mdb)) = []"
    using t1[THEN conjunct1] t1[THEN conjunct2, THEN conjunct1] c
    by (simp_all add: same_tables_def)
  have u: "fst (update_content ex_menv 7 (ex_input (Some ''draft'') (Some [2, 3, 4])) ex_mdb) = Inr True"
    by (simp add: update_content_def update_input_def update_content_tags_def bind_def
        catch_def prepare_def remove_tags_def run_with_object_def driver_call_def Let_def
        ret_def ex_mdb_def ex_input_def ex_mrow_def tags_or_empty_def)
  have v: "content_to_tags (snd (update_content ex_menv 7 (ex_input (Some ''draft'') (Some [2, 3, 4])) ex_mdb)) =
      [(7, 1), (7, 2), (7, 3), (8, 1)]"
    using t2[THEN conjunct1] c(1) by simp
  have m: "(''c1'', ''2'') \<in> set (content_to_tags ex_tagged)"
    by (simp add: ex_tagged_def)
  show ?thesis
    using n f c(1) a b g u v h m t3[THEN conjunct1] t3[THEN conjunct2, THEN conjunct1]
      ex_updateContent(3)
    by (intro conjI) (elim conjE, assumption)+
qed

end
